theory Spec2Isabelle
  imports Main "HOL-Library.Word"
begin

section \<open>Inline visitors of arrow/visitor\_inline.h\<close>

text \<open>
  The header visits an array's validity bitmap and values run by run, and dispatches a
  runtime type tag to a visitor. Integers of the source (\<open>int64_t\<close> positions, offsets and
  lengths) are modelled as \<open>int\<close>: the traversal only ever counts from 0 up to the length
  of an array that is resident in memory, so no addition of the source wraps.

  The result type \<open>option\<close> is used for every operation that may fail to return: \<open>None\<close>
  stands for a call that does not return a result (the loop never ends, or a null pointer
  is dereferenced), \<open>Some r\<close> for a call that returns \<open>r\<close>.
\<close>

subsection \<open>Status\<close>

text \<open>
  Modelled from the spec: \<open>Status\<close> and \<open>StatusCode\<close> of arrow/status.h, which is not
  part of the source at hand. A status is either success or an error value with a code and
  a message; \<open>ok\<close> tells them apart, and \<open>ARROW_RETURN_NOT_OK\<close> returns a status that is
  not \<open>ok\<close> to the caller as it is.
\<close>

datatype StatusCode = OutOfMemory | KeyError | TypeError | Invalid | IOError
  | CapacityError | IndexError | UnknownError | NotImplemented

datatype Status = OK | Error StatusCode string

fun ok :: "Status \<Rightarrow> bool" where
  "ok OK = True"
| "ok (Error c m) = False"

definition Status_NotImplemented :: "string \<Rightarrow> Status" where
  "Status_NotImplemented msg = Error NotImplemented msg"

subsection \<open>Buffers and bit tests\<close>

text \<open>
  A buffer is seen by the traversal only through its \<open>data()\<close> pointer, never through its
  size: it is modelled as the memory that the pointer gives access to, a byte for every
  index. A \<open>shared_ptr<Buffer>\<close> or a \<open>const uint8_t*\<close> that may be null is a
  \<open>Buffer option\<close>.
\<close>

type_synonym Buffer = "int \<Rightarrow> 8 word"

text \<open>
  Modelled from the spec: \<open>BitUtil::GetBit\<close> of arrow/util/bit\_util.h, which is not part
  of the source at hand: the test of bit \<open>i\<close> of a packed bitmap, bit \<open>i mod 8\<close> of byte
  \<open>i div 8\<close>. Reading through a null pointer gives no result.
\<close>

definition GetBit :: "Buffer option \<Rightarrow> int \<Rightarrow> bool option" where
  "GetBit bits i =
     (case bits of
        None \<Rightarrow> None
      | Some data \<Rightarrow> Some (bit (data (i div 8)) (nat (i mod 8))))"

subsection \<open>The run scanner\<close>

text \<open>
  Modelled from the spec: \<open>BitBlockCount\<close> and \<open>OptionalBitBlockCounter\<close> of
  arrow/util/bit\_block\_counter.h, which is not part of the source at hand. Section 4.1 of
  the specification: given a bitmap (or none), a bit offset and a length, the scanner
  produces runs, each with a length and the information whether all its bits are set, all
  are clear, or they are mixed, until the runs cover the length; the scan granularity is 64
  bits; without a bitmap the scanner behaves as if every bit were set. A run reports its
  length and the number of its set bits; once the length is covered, the scanner produces
  empty runs.
\<close>

record BitBlockCount =
  block_length :: int
  popcount :: int

definition AllSet :: "BitBlockCount \<Rightarrow> bool" where
  "AllSet block = (block_length block = popcount block)"

definition NoneSet :: "BitBlockCount \<Rightarrow> bool" where
  "NoneSet block = (popcount block = 0)"

record OptionalBitBlockCounter =
  counter_bitmap :: "Buffer option"
  counter_offset :: int
  bits_remaining :: int

definition OptionalBitBlockCounter_init ::
  "Buffer option \<Rightarrow> int \<Rightarrow> int \<Rightarrow> OptionalBitBlockCounter" where
  "OptionalBitBlockCounter_init bitmap offset length' =
     \<lparr>counter_bitmap = bitmap, counter_offset = offset, bits_remaining = length'\<rparr>"

definition CountSetBits :: "Buffer \<Rightarrow> int \<Rightarrow> int \<Rightarrow> int" where
  "CountSetBits data offset n =
     int (length (filter (\<lambda>j. GetBit (Some data) (offset + j) = Some True) [0..n - 1]))"

definition NextBlock ::
  "OptionalBitBlockCounter \<Rightarrow> BitBlockCount \<times> OptionalBitBlockCounter" where
  "NextBlock c =
     (let n = max 0 (min 64 (bits_remaining c));
          set_bits = (case counter_bitmap c of
                        None \<Rightarrow> n
                      | Some data \<Rightarrow> CountSetBits data (counter_offset c) n)
      in (\<lparr>block_length = n, popcount = set_bits\<rparr>,
          c\<lparr>counter_offset := counter_offset c + n,
            bits_remaining := bits_remaining c - n\<rparr>))"

subsection \<open>detail::VisitBitBlocksVoid\<close>

text \<open>
  A callback is code of the caller with a state of its own (the captures of a lambda, the
  fields of a visitor): it takes the state and returns the new one. The three \<open>for\<close> loops
  of the source count \<open>i\<close> up to the length of the block and the position with it; they
  differ in their bodies only, so one function models the loop and takes the body.
\<close>

function for_block_void ::
  "(int \<Rightarrow> 's \<Rightarrow> 's option) \<Rightarrow> int \<Rightarrow> int \<Rightarrow> int \<Rightarrow> 's \<Rightarrow> (int \<times> 's) option" where
  "for_block_void body n i position s =
     (if i < n then
        (case body position s of
           None \<Rightarrow> None
         | Some s' \<Rightarrow> for_block_void body n (i + 1) (position + 1) s')
      else Some (position, s))"
  by pat_completeness auto
termination
  by (relation "measure (\<lambda>(body, n, i, position, s). nat (n - i))") auto

text \<open>
  The body of the third loop: \<open>if (BitUtil::GetBit(bitmap, offset + position))\<close> chooses
  between the two callbacks.
\<close>

definition visit_by_bit ::
  "Buffer option \<Rightarrow> int \<Rightarrow> (int \<Rightarrow> 's \<Rightarrow> 'r option) \<Rightarrow> ('s \<Rightarrow> 'r option) \<Rightarrow>
     int \<Rightarrow> 's \<Rightarrow> 'r option" where
  "visit_by_bit bitmap offset visit_not_null visit_null position s =
     (case GetBit bitmap (offset + position) of
        None \<Rightarrow> None
      | Some b \<Rightarrow> if b then visit_not_null position s else visit_null s)"

partial_function (option) VisitBitBlocksVoid_while ::
  "Buffer option \<Rightarrow> int \<Rightarrow> int \<Rightarrow> (int \<Rightarrow> 's \<Rightarrow> 's option) \<Rightarrow> ('s \<Rightarrow> 's option) \<Rightarrow>
     OptionalBitBlockCounter \<Rightarrow> int \<Rightarrow> 's \<Rightarrow> 's option" where
  "VisitBitBlocksVoid_while bitmap offset length' visit_not_null visit_null
       bit_counter position s =
     (if position < length' then
        (let block = fst (NextBlock bit_counter);
             bit_counter' = snd (NextBlock bit_counter)
         in case (if AllSet block then
                    for_block_void visit_not_null (block_length block) 0 position s
                  else if NoneSet block then
                    for_block_void (\<lambda>p. visit_null) (block_length block) 0 position s
                  else
                    for_block_void (visit_by_bit bitmap offset visit_not_null visit_null)
                      (block_length block) 0 position s) of
              None \<Rightarrow> None
            | Some (position', s') \<Rightarrow>
                VisitBitBlocksVoid_while bitmap offset length' visit_not_null visit_null
                  bit_counter' position' s')
      else Some s)"

definition VisitBitBlocksVoid ::
  "Buffer option \<Rightarrow> int \<Rightarrow> int \<Rightarrow> (int \<Rightarrow> 's \<Rightarrow> 's option) \<Rightarrow> ('s \<Rightarrow> 's option) \<Rightarrow>
     's \<Rightarrow> 's option" where
  "VisitBitBlocksVoid bitmap_buf offset length' visit_not_null visit_null s =
     (let bitmap = (case bitmap_buf of None \<Rightarrow> None | Some buf \<Rightarrow> Some buf);
          bit_counter = OptionalBitBlockCounter_init bitmap offset length'
      in VisitBitBlocksVoid_while bitmap offset length' visit_not_null visit_null
           bit_counter 0 s)"

subsection \<open>detail::VisitBitBlocks\<close>

text \<open>
  The status form: a callback returns a \<open>Status\<close> with its new state, and
  \<open>ARROW_RETURN_NOT_OK\<close> leaves the whole function with the first status that is not
  \<open>ok\<close>. A \<open>for\<close> loop therefore ends in one of two ways: \<open>Inl\<close>, the function has
  returned that status, or \<open>Inr\<close>, the loop is over and the traversal goes on from the new
  position.
\<close>

function for_block ::
  "(int \<Rightarrow> 's \<Rightarrow> (Status \<times> 's) option) \<Rightarrow> int \<Rightarrow> int \<Rightarrow> int \<Rightarrow> 's \<Rightarrow>
     ((Status \<times> 's) + (int \<times> 's)) option" where
  "for_block body n i position s =
     (if i < n then
        (case body position s of
           None \<Rightarrow> None
         | Some (st, s') \<Rightarrow>
             if ok st then for_block body n (i + 1) (position + 1) s'
             else Some (Inl (st, s')))
      else Some (Inr (position, s)))"
  by pat_completeness auto
termination
  by (relation "measure (\<lambda>(body, n, i, position, s). nat (n - i))") auto

partial_function (option) VisitBitBlocks_while ::
  "Buffer option \<Rightarrow> int \<Rightarrow> int \<Rightarrow> (int \<Rightarrow> 's \<Rightarrow> (Status \<times> 's) option) \<Rightarrow>
     ('s \<Rightarrow> (Status \<times> 's) option) \<Rightarrow> OptionalBitBlockCounter \<Rightarrow> int \<Rightarrow> 's \<Rightarrow>
     (Status \<times> 's) option" where
  "VisitBitBlocks_while bitmap offset length' visit_not_null visit_null
       bit_counter position s =
     (if position < length' then
        (let block = fst (NextBlock bit_counter);
             bit_counter' = snd (NextBlock bit_counter)
         in case (if AllSet block then
                    for_block visit_not_null (block_length block) 0 position s
                  else if NoneSet block then
                    for_block (\<lambda>p. visit_null) (block_length block) 0 position s
                  else
                    for_block (visit_by_bit bitmap offset visit_not_null visit_null)
                      (block_length block) 0 position s) of
              None \<Rightarrow> None
            | Some (Inl returned) \<Rightarrow> Some returned
            | Some (Inr (position', s')) \<Rightarrow>
                VisitBitBlocks_while bitmap offset length' visit_not_null visit_null
                  bit_counter' position' s')
      else Some (OK, s))"

definition VisitBitBlocks ::
  "Buffer option \<Rightarrow> int \<Rightarrow> int \<Rightarrow> (int \<Rightarrow> 's \<Rightarrow> (Status \<times> 's) option) \<Rightarrow>
     ('s \<Rightarrow> (Status \<times> 's) option) \<Rightarrow> 's \<Rightarrow> (Status \<times> 's) option" where
  "VisitBitBlocks bitmap_buf offset length' visit_not_null visit_null s =
     (let bitmap = (case bitmap_buf of None \<Rightarrow> None | Some buf \<Rightarrow> Some buf);
          bit_counter = OptionalBitBlockCounter_init bitmap offset length'
      in VisitBitBlocks_while bitmap offset length' visit_not_null visit_null
           bit_counter 0 s)"

subsection \<open>VisitNullBitmapInline\<close>

text \<open>
  Both overloads take \<open>null_count\<close> and mark it \<open>ARROW_UNUSED\<close>. Their \<open>for\<close> loops count
  \<open>i\<close> only; the position and the bit position advance by the length of the block after
  the loops. The callback takes the validity of one position.
\<close>

function for_count ::
  "(int \<Rightarrow> 's \<Rightarrow> (Status \<times> 's) option) \<Rightarrow> int \<Rightarrow> int \<Rightarrow> 's \<Rightarrow>
     ((Status \<times> 's) + 's) option" where
  "for_count body n i s =
     (if i < n then
        (case body i s of
           None \<Rightarrow> None
         | Some (st, s') \<Rightarrow>
             if ok st then for_count body n (i + 1) s' else Some (Inl (st, s')))
      else Some (Inr s))"
  by pat_completeness auto
termination
  by (relation "measure (\<lambda>(body, n, i, s). nat (n - i))") auto

function for_count_void ::
  "(int \<Rightarrow> 's \<Rightarrow> 's option) \<Rightarrow> int \<Rightarrow> int \<Rightarrow> 's \<Rightarrow> 's option" where
  "for_count_void body n i s =
     (if i < n then
        (case body i s of
           None \<Rightarrow> None
         | Some s' \<Rightarrow> for_count_void body n (i + 1) s')
      else Some s)"
  by pat_completeness auto
termination
  by (relation "measure (\<lambda>(body, n, i, s). nat (n - i))") auto

definition func_of_bit ::
  "Buffer option \<Rightarrow> int \<Rightarrow> (bool \<Rightarrow> 's \<Rightarrow> 'r option) \<Rightarrow> int \<Rightarrow> 's \<Rightarrow> 'r option" where
  "func_of_bit valid_bits offset_position func i s =
     (case GetBit valid_bits (offset_position + i) of
        None \<Rightarrow> None
      | Some b \<Rightarrow> func b s)"

partial_function (option) VisitNullBitmapInline_while ::
  "Buffer option \<Rightarrow> int \<Rightarrow> (bool \<Rightarrow> 's \<Rightarrow> (Status \<times> 's) option) \<Rightarrow>
     OptionalBitBlockCounter \<Rightarrow> int \<Rightarrow> int \<Rightarrow> 's \<Rightarrow> (Status \<times> 's) option" where
  "VisitNullBitmapInline_while valid_bits num_values func bit_counter position
       offset_position s =
     (if position < num_values then
        (let block = fst (NextBlock bit_counter);
             bit_counter' = snd (NextBlock bit_counter)
         in case (if AllSet block then
                    for_count (\<lambda>i. func True) (block_length block) 0 s
                  else if NoneSet block then
                    for_count (\<lambda>i. func False) (block_length block) 0 s
                  else
                    for_count (func_of_bit valid_bits offset_position func)
                      (block_length block) 0 s) of
              None \<Rightarrow> None
            | Some (Inl returned) \<Rightarrow> Some returned
            | Some (Inr s') \<Rightarrow>
                VisitNullBitmapInline_while valid_bits num_values func bit_counter'
                  (position + block_length block) (offset_position + block_length block) s')
      else Some (OK, s))"

definition VisitNullBitmapInline ::
  "Buffer option \<Rightarrow> int \<Rightarrow> int \<Rightarrow> int \<Rightarrow> (bool \<Rightarrow> 's \<Rightarrow> (Status \<times> 's) option) \<Rightarrow>
     's \<Rightarrow> (Status \<times> 's) option" where
  "VisitNullBitmapInline valid_bits valid_bits_offset num_values null_count func s =
     (let bit_counter = OptionalBitBlockCounter_init valid_bits valid_bits_offset num_values;
          position = 0;
          offset_position = valid_bits_offset
      in VisitNullBitmapInline_while valid_bits num_values func bit_counter position
           offset_position s)"

partial_function (option) VisitNullBitmapInlineVoid_while ::
  "Buffer option \<Rightarrow> int \<Rightarrow> (bool \<Rightarrow> 's \<Rightarrow> 's option) \<Rightarrow>
     OptionalBitBlockCounter \<Rightarrow> int \<Rightarrow> int \<Rightarrow> 's \<Rightarrow> 's option" where
  "VisitNullBitmapInlineVoid_while valid_bits num_values func bit_counter position
       offset_position s =
     (if position < num_values then
        (let block = fst (NextBlock bit_counter);
             bit_counter' = snd (NextBlock bit_counter)
         in case (if AllSet block then
                    for_count_void (\<lambda>i. func True) (block_length block) 0 s
                  else if NoneSet block then
                    for_count_void (\<lambda>i. func False) (block_length block) 0 s
                  else
                    for_count_void (func_of_bit valid_bits offset_position func)
                      (block_length block) 0 s) of
              None \<Rightarrow> None
            | Some s' \<Rightarrow>
                VisitNullBitmapInlineVoid_while valid_bits num_values func bit_counter'
                  (position + block_length block) (offset_position + block_length block) s')
      else Some s)"

definition VisitNullBitmapInlineVoid ::
  "Buffer option \<Rightarrow> int \<Rightarrow> int \<Rightarrow> int \<Rightarrow> (bool \<Rightarrow> 's \<Rightarrow> 's option) \<Rightarrow> 's \<Rightarrow> 's option" where
  "VisitNullBitmapInlineVoid valid_bits valid_bits_offset num_values null_count func s =
     (let bit_counter = OptionalBitBlockCounter_init valid_bits valid_bits_offset num_values;
          position = 0;
          offset_position = valid_bits_offset
      in VisitNullBitmapInlineVoid_while valid_bits num_values func bit_counter position
           offset_position s)"

subsection \<open>Arrays and the layout adapters\<close>

text \<open>
  Modelled from the spec: \<open>DataType\<close> and \<open>ArrayData\<close> of arrow/type.h and arrow/array.h,
  which are not part of the source at hand; only the members that the header reads are
  kept. A type has its runtime tag \<open>id()\<close>, its name \<open>ToString()\<close> and, for a fixed-size
  binary type, its \<open>byte_width()\<close>. An array has its type, its buffers, its offset and its
  length. \<open>buffer_at\<close> is \<open>arr.buffers[k]\<close>; an index the vector does not have is read as
  an absent buffer.
\<close>

record DataType =
  type_id :: int
  ToString :: string
  byte_width :: int

record ArrayData =
  type :: DataType
  buffers :: "Buffer option list"
  offset :: int
  length' :: int

definition buffer_at :: "ArrayData \<Rightarrow> nat \<Rightarrow> Buffer option" where
  "buffer_at arr k = (if k < length (buffers arr) then buffers arr ! k else None)"

text \<open>
  A pointer into the memory of an array is the object it points into and a displacement,
  counted in elements of the pointer's type. The objects are the data of \<open>buffers[k]\<close>,
  the constant \<open>empty_value\<close> of the binary adapter, and none for the null pointer.
  A \<open>util::string_view\<close> is the pointer and the size it is built from.
\<close>

datatype memory_object = NullObject | EmptyValue | BufferData nat

datatype pointer = Pointer memory_object int

definition NULLPTR :: pointer where
  "NULLPTR = Pointer NullObject 0"

fun pointer_add :: "pointer \<Rightarrow> int \<Rightarrow> pointer" where
  "pointer_add (Pointer obj d) n = Pointer obj (d + n)"

record string_view =
  sv_data :: pointer
  sv_size :: int

text \<open>
  The size of a \<open>string_view\<close> is a \<open>size_t\<close>, of 64 bits: the signed count that the
  source passes to the constructor is converted to it, and a negative count wraps around.
  \<open>sv_size\<close> holds the converted value, from 0 to \<open>2 ^ 64 - 1\<close>.
\<close>

definition to_size_t :: "int \<Rightarrow> int" where
  "to_size_t n = n mod 2 ^ 64"

text \<open>
  Modelled from the spec: \<open>ArrayData::GetValues<T>(i, absolute_offset)\<close>, the data of
  \<open>buffers[i]\<close> as a pointer to \<open>T\<close> moved by \<open>absolute_offset\<close> elements, and the null
  pointer when the buffer is absent; \<open>GetValues<T>(i)\<close> moves it by the array's offset.
\<close>

definition GetValues :: "ArrayData \<Rightarrow> nat \<Rightarrow> int \<Rightarrow> pointer" where
  "GetValues arr i absolute_offset =
     (case buffer_at arr i of
        None \<Rightarrow> NULLPTR
      | Some buf \<Rightarrow> Pointer (BufferData i) absolute_offset)"

text \<open>
  Reading \<open>p[k]\<close> through a typed pointer \<open>p\<close>. How the bytes of a buffer make up a value
  of the element type is a matter of memory layout: it is the parameter \<open>read\<close>, which
  gives element \<open>k\<close> of a buffer's data seen as an array of that type. Only buffer data
  is ever read; a read through any other pointer gives no result.
\<close>

definition read_at :: "(Buffer \<Rightarrow> int \<Rightarrow> 'c) \<Rightarrow> ArrayData \<Rightarrow> pointer \<Rightarrow> int \<Rightarrow> 'c option" where
  "read_at read arr p k =
     (case p of
        Pointer (BufferData i) d \<Rightarrow>
          (case buffer_at arr i of None \<Rightarrow> None | Some buf \<Rightarrow> Some (read buf (d + k)))
      | Pointer EmptyValue d \<Rightarrow> None
      | Pointer NullObject d \<Rightarrow> None)"

paragraph \<open>Numeric and primitive C-compatible types\<close>

definition CType_VisitStatus ::
  "(Buffer \<Rightarrow> int \<Rightarrow> 'c) \<Rightarrow> ArrayData \<Rightarrow> ('c option \<Rightarrow> 's \<Rightarrow> (Status \<times> 's) option) \<Rightarrow>
     's \<Rightarrow> (Status \<times> 's) option" where
  "CType_VisitStatus read arr func s =
     (let data = GetValues arr 1 (offset arr)
      in VisitBitBlocks (buffer_at arr 0) (offset arr) (length' arr)
           (\<lambda>i s. case read_at read arr data i of
                     None \<Rightarrow> None
                   | Some v \<Rightarrow> func (Some v) s)
           (\<lambda>s. func None s) s)"

definition CType_VisitVoid ::
  "(Buffer \<Rightarrow> int \<Rightarrow> 'c) \<Rightarrow> ArrayData \<Rightarrow> ('c option \<Rightarrow> 's \<Rightarrow> 's option) \<Rightarrow>
     's \<Rightarrow> 's option" where
  "CType_VisitVoid read arr func s =
     (let data = GetValues arr 1 (offset arr)
      in VisitBitBlocksVoid (buffer_at arr 0) (offset arr) (length' arr)
           (\<lambda>i s. case read_at read arr data i of
                     None \<Rightarrow> None
                   | Some v \<Rightarrow> func (Some v) s)
           (\<lambda>s. func None s) s)"

paragraph \<open>Boolean\<close>

text \<open>\<open>arr.buffers[1]->data()\<close> is taken before the traversal starts.\<close>

definition Boolean_VisitStatus ::
  "ArrayData \<Rightarrow> (bool option \<Rightarrow> 's \<Rightarrow> (Status \<times> 's) option) \<Rightarrow> 's \<Rightarrow> (Status \<times> 's) option" where
  "Boolean_VisitStatus arr func s =
     (case buffer_at arr 1 of
        None \<Rightarrow> None
      | Some data \<Rightarrow>
          VisitBitBlocks (buffer_at arr 0) (offset arr) (length' arr)
            (\<lambda>i s. case GetBit (Some data) (offset arr + i) of
                      None \<Rightarrow> None
                    | Some b \<Rightarrow> func (Some b) s)
            (\<lambda>s. func None s) s)"

definition Boolean_VisitVoid ::
  "ArrayData \<Rightarrow> (bool option \<Rightarrow> 's \<Rightarrow> 's option) \<Rightarrow> 's \<Rightarrow> 's option" where
  "Boolean_VisitVoid arr func s =
     (case buffer_at arr 1 of
        None \<Rightarrow> None
      | Some data \<Rightarrow>
          VisitBitBlocksVoid (buffer_at arr 0) (offset arr) (length' arr)
            (\<lambda>i s. case GetBit (Some data) (offset arr + i) of
                      None \<Rightarrow> None
                    | Some b \<Rightarrow> func (Some b) s)
            (\<lambda>s. func None s) s)"

paragraph \<open>Binary, String...\<close>

text \<open>
  \<open>offsets\<close> is \<open>arr.GetValues<offset_type>(1)\<close>, moved by the array's offset; \<open>data\<close> is
  the address of \<open>empty_value\<close> when \<open>buffers[2]\<close> is absent and
  \<open>arr.GetValues<uint8_t>(2, 0)\<close> otherwise. The value of position \<open>i\<close> is the view
  \<open>string_view(data + offsets[i], offsets[i + 1] - offsets[i])\<close>; the difference is
  that of the offset type (where it overflows that type, the source has no defined
  behaviour) and becomes the size of the view by conversion to \<open>size_t\<close>.
\<close>

definition BaseBinary_data :: "ArrayData \<Rightarrow> pointer" where
  "BaseBinary_data arr =
     (if buffer_at arr 2 = None then Pointer EmptyValue 0 else GetValues arr 2 0)"

definition BaseBinary_value ::
  "(Buffer \<Rightarrow> int \<Rightarrow> int) \<Rightarrow> ArrayData \<Rightarrow> pointer \<Rightarrow> pointer \<Rightarrow> int \<Rightarrow> string_view option" where
  "BaseBinary_value read arr offsets data i =
     (case read_at read arr offsets i of
        None \<Rightarrow> None
      | Some offsets_i \<Rightarrow>
          (case read_at read arr offsets (i + 1) of
             None \<Rightarrow> None
           | Some offsets_i1 \<Rightarrow>
               Some \<lparr>sv_data = pointer_add data offsets_i,
                     sv_size = to_size_t (offsets_i1 - offsets_i)\<rparr>))"

definition BaseBinary_VisitStatus ::
  "(Buffer \<Rightarrow> int \<Rightarrow> int) \<Rightarrow> ArrayData \<Rightarrow>
     (string_view option \<Rightarrow> 's \<Rightarrow> (Status \<times> 's) option) \<Rightarrow> 's \<Rightarrow> (Status \<times> 's) option" where
  "BaseBinary_VisitStatus read arr func s =
     (let offsets = GetValues arr 1 (offset arr);
          data = BaseBinary_data arr
      in VisitBitBlocks (buffer_at arr 0) (offset arr) (length' arr)
           (\<lambda>i s. case BaseBinary_value read arr offsets data i of
                     None \<Rightarrow> None
                   | Some v \<Rightarrow> func (Some v) s)
           (\<lambda>s. func None s) s)"

definition BaseBinary_VisitVoid ::
  "(Buffer \<Rightarrow> int \<Rightarrow> int) \<Rightarrow> ArrayData \<Rightarrow>
     (string_view option \<Rightarrow> 's \<Rightarrow> 's option) \<Rightarrow> 's \<Rightarrow> 's option" where
  "BaseBinary_VisitVoid read arr func s =
     (let offsets = GetValues arr 1 (offset arr);
          data = BaseBinary_data arr
      in VisitBitBlocksVoid (buffer_at arr 0) (offset arr) (length' arr)
           (\<lambda>i s. case BaseBinary_value read arr offsets data i of
                     None \<Rightarrow> None
                   | Some v \<Rightarrow> func (Some v) s)
           (\<lambda>s. func None s) s)"

paragraph \<open>FixedSizeBinary, Decimal128\<close>

text \<open>
  The two lambdas capture the local pointer \<open>data\<close> by reference and move it by
  \<open>byte_width\<close> at every call: the pointer is part of the state that the callbacks of the
  traversal pass on, next to the state of \<open>func\<close>. The \<open>int32_t\<close> width becomes the
  size of the view by conversion to \<open>size_t\<close>.
\<close>

definition FixedSizeBinary_not_null ::
  "int \<Rightarrow> (string_view option \<Rightarrow> 's \<Rightarrow> 'r option) \<Rightarrow> int \<Rightarrow> pointer \<times> 's \<Rightarrow>
     (pointer \<times> 'r) option" where
  "FixedSizeBinary_not_null width func i = (\<lambda>(data, s).
     let v = \<lparr>sv_data = data, sv_size = to_size_t width\<rparr>;
         data' = pointer_add data width
     in case func (Some v) s of None \<Rightarrow> None | Some r \<Rightarrow> Some (data', r))"

definition FixedSizeBinary_null ::
  "int \<Rightarrow> (string_view option \<Rightarrow> 's \<Rightarrow> 'r option) \<Rightarrow> pointer \<times> 's \<Rightarrow>
     (pointer \<times> 'r) option" where
  "FixedSizeBinary_null width func = (\<lambda>(data, s).
     let data' = pointer_add data width
     in case func None s of None \<Rightarrow> None | Some r \<Rightarrow> Some (data', r))"

definition FixedSizeBinary_VisitStatus ::
  "ArrayData \<Rightarrow> (string_view option \<Rightarrow> 's \<Rightarrow> (Status \<times> 's) option) \<Rightarrow> 's \<Rightarrow>
     (Status \<times> 's) option" where
  "FixedSizeBinary_VisitStatus arr func s =
     (let width = byte_width (type arr);
          data = GetValues arr 1 (offset arr * width)
      in case VisitBitBlocks (buffer_at arr 0) (offset arr) (length' arr)
                (\<lambda>i ds. case FixedSizeBinary_not_null width func i ds of
                           None \<Rightarrow> None
                         | Some (data', st, s') \<Rightarrow> Some (st, data', s'))
                (\<lambda>ds. case FixedSizeBinary_null width func ds of
                         None \<Rightarrow> None
                       | Some (data', st, s') \<Rightarrow> Some (st, data', s'))
                (data, s) of
           None \<Rightarrow> None
         | Some (st, data', s') \<Rightarrow> Some (st, s'))"

definition FixedSizeBinary_VisitVoid ::
  "ArrayData \<Rightarrow> (string_view option \<Rightarrow> 's \<Rightarrow> 's option) \<Rightarrow> 's \<Rightarrow> 's option" where
  "FixedSizeBinary_VisitVoid arr func s =
     (let width = byte_width (type arr);
          data = GetValues arr 1 (offset arr * width)
      in case VisitBitBlocksVoid (buffer_at arr 0) (offset arr) (length' arr)
                (FixedSizeBinary_not_null width func)
                (FixedSizeBinary_null width func)
                (data, s) of
           None \<Rightarrow> None
         | Some (data', s') \<Rightarrow> Some s')"

subsection \<open>ArrayDataVisitor\<close>

text \<open>
  \<open>ArrayDataVisitor<T>::Visit\<close> builds \<open>func\<close> from the two methods of the visitor and
  calls \<open>InlineVisitorType::VisitStatus\<close>, the adapter that the type \<open>T\<close> selects: the
  adapter is a parameter here, as \<open>T\<close> is one of the template.
\<close>

definition ArrayDataVisitor_func ::
  "('c \<Rightarrow> 'v \<Rightarrow> (Status \<times> 'v) option) \<Rightarrow> ('v \<Rightarrow> (Status \<times> 'v) option) \<Rightarrow>
     'c option \<Rightarrow> 'v \<Rightarrow> (Status \<times> 'v) option" where
  "ArrayDataVisitor_func VisitValue VisitNull v visitor =
     (if v \<noteq> None then VisitValue (the v) visitor else VisitNull visitor)"

definition ArrayDataVisitor_Visit ::
  "(ArrayData \<Rightarrow> ('c option \<Rightarrow> 'v \<Rightarrow> (Status \<times> 'v) option) \<Rightarrow> 'v \<Rightarrow> (Status \<times> 'v) option) \<Rightarrow>
     ArrayData \<Rightarrow> ('c \<Rightarrow> 'v \<Rightarrow> (Status \<times> 'v) option) \<Rightarrow> ('v \<Rightarrow> (Status \<times> 'v) option) \<Rightarrow>
     'v \<Rightarrow> (Status \<times> 'v) option" where
  "ArrayDataVisitor_Visit InlineVisitorType_VisitStatus arr VisitValue VisitNull visitor =
     (let func = ArrayDataVisitor_func VisitValue VisitNull
      in InlineVisitorType_VisitStatus arr func visitor)"

subsection \<open>The dispatchers\<close>

text \<open>
  \<open>ARROW_GENERATE_FOR_ALL_TYPES\<close> lists the type classes, the \<open>case\<close> labels of the three
  switches in their order. The label of a class is \<open>TYPE_CLASS##Type::type_id\<close>, a
  constant of arrow/type.h that is not part of the source at hand: the labels are the
  parameter \<open>type_id_of\<close>. The switch takes the first label equal to the tag (C++ admits a
  label once only), calls the \<open>Visit\<close> method of the visitor for that class and returns its
  status; with no such label it leaves the switch and the function returns
  \<open>Status::NotImplemented\<close>. A visitor is its state and its \<open>Visit\<close> methods, one for
  each class.
\<close>

datatype TYPE_CLASS = Null | Boolean | Int8 | UInt8 | Int16 | UInt16 | Int32 | UInt32
  | Int64 | UInt64 | HalfFloat | Float | Double | String | Binary | LargeString
  | LargeBinary | FixedSizeBinary | Duration | Date32 | Date64 | Timestamp | Time32
  | Time64 | MonthInterval | DayTimeInterval | Decimal128 | List | LargeList | Map
  | FixedSizeList | Struct | SparseUnion | DenseUnion | Dictionary | Extension

definition ARROW_GENERATE_FOR_ALL_INTEGER_TYPES :: "TYPE_CLASS list" where
  "ARROW_GENERATE_FOR_ALL_INTEGER_TYPES =
     [Int8, UInt8, Int16, UInt16, Int32, UInt32, Int64, UInt64]"

definition ARROW_GENERATE_FOR_ALL_NUMERIC_TYPES :: "TYPE_CLASS list" where
  "ARROW_GENERATE_FOR_ALL_NUMERIC_TYPES =
     ARROW_GENERATE_FOR_ALL_INTEGER_TYPES @ [HalfFloat, Float, Double]"

definition ARROW_GENERATE_FOR_ALL_TYPES :: "TYPE_CLASS list" where
  "ARROW_GENERATE_FOR_ALL_TYPES =
     [Null, Boolean] @ ARROW_GENERATE_FOR_ALL_NUMERIC_TYPES @
     [String, Binary, LargeString, LargeBinary, FixedSizeBinary, Duration, Date32, Date64,
      Timestamp, Time32, Time64, MonthInterval, DayTimeInterval, Decimal128, List,
      LargeList, Map, FixedSizeList, Struct, SparseUnion, DenseUnion, Dictionary,
      Extension]"

record Scalar =
  scalar_type :: DataType

definition VisitTypeInline ::
  "(TYPE_CLASS \<Rightarrow> int) \<Rightarrow> DataType \<Rightarrow>
     (TYPE_CLASS \<Rightarrow> DataType \<Rightarrow> 'v \<Rightarrow> (Status \<times> 'v) option) \<Rightarrow> 'v \<Rightarrow> (Status \<times> 'v) option" where
  "VisitTypeInline type_id_of ty Visit visitor =
     (case find (\<lambda>c. type_id_of c = type_id ty) ARROW_GENERATE_FOR_ALL_TYPES of
        Some c \<Rightarrow> Visit c ty visitor
      | None \<Rightarrow> Some (Status_NotImplemented ''Type not implemented'', visitor))"

definition VisitArrayInline ::
  "(TYPE_CLASS \<Rightarrow> int) \<Rightarrow> ArrayData \<Rightarrow>
     (TYPE_CLASS \<Rightarrow> ArrayData \<Rightarrow> 'v \<Rightarrow> (Status \<times> 'v) option) \<Rightarrow> 'v \<Rightarrow> (Status \<times> 'v) option" where
  "VisitArrayInline type_id_of array Visit visitor =
     (case find (\<lambda>c. type_id_of c = type_id (type array)) ARROW_GENERATE_FOR_ALL_TYPES of
        Some c \<Rightarrow> Visit c array visitor
      | None \<Rightarrow> Some (Status_NotImplemented ''Type not implemented'', visitor))"

definition VisitScalarInline ::
  "(TYPE_CLASS \<Rightarrow> int) \<Rightarrow> Scalar \<Rightarrow>
     (TYPE_CLASS \<Rightarrow> Scalar \<Rightarrow> 'v \<Rightarrow> (Status \<times> 'v) option) \<Rightarrow> 'v \<Rightarrow> (Status \<times> 'v) option" where
  "VisitScalarInline type_id_of scalar Visit visitor =
     (case find (\<lambda>c. type_id_of c = type_id (scalar_type scalar))
             ARROW_GENERATE_FOR_ALL_TYPES of
        Some c \<Rightarrow> Visit c scalar visitor
      | None \<Rightarrow>
          Some (Status_NotImplemented
                  (''Scalar visitor for type not implemented '' @ ToString (scalar_type scalar)),
                visitor))"

subsection \<open>The reference traversal\<close>

text \<open>
  The traversal as the specification words it: the positions are visited one by one in
  increasing order, the validity of a position is the bit of the bitmap at the offset plus
  the position (every position is valid without a bitmap), and a status that is not \<open>ok\<close>
  ends the visit and is the result.
\<close>

definition bit_is_set :: "Buffer option \<Rightarrow> int \<Rightarrow> bool" where
  "bit_is_set bitmap k =
     (case bitmap of
        None \<Rightarrow> True
      | Some data \<Rightarrow> bit (data (k div 8)) (nat (k mod 8)))"

definition reference_step ::
  "Buffer option \<Rightarrow> int \<Rightarrow> (int \<Rightarrow> 's \<Rightarrow> 'r) \<Rightarrow> ('s \<Rightarrow> 'r) \<Rightarrow> int \<Rightarrow> 's \<Rightarrow> 'r" where
  "reference_step bitmap off visit_not_null visit_null p s =
     (if bit_is_set bitmap (off + p) then visit_not_null p s else visit_null s)"

fun visit_each :: "(int \<Rightarrow> 's \<Rightarrow> 's option) \<Rightarrow> int list \<Rightarrow> 's \<Rightarrow> 's option" where
  "visit_each f [] s = Some s"
| "visit_each f (p # ps) s =
     (case f p s of None \<Rightarrow> None | Some s' \<Rightarrow> visit_each f ps s')"

fun visit_each_status ::
  "(int \<Rightarrow> 's \<Rightarrow> (Status \<times> 's) option) \<Rightarrow> int list \<Rightarrow> 's \<Rightarrow> (Status \<times> 's) option" where
  "visit_each_status f [] s = Some (OK, s)"
| "visit_each_status f (p # ps) s =
     (case f p s of
        None \<Rightarrow> None
      | Some (st, s') \<Rightarrow> if ok st then visit_each_status f ps s' else Some (st, s'))"

text \<open>
  Observing a traversal: a callback is wrapped so that it notes each of its calls in a log
  before it runs, the not-null callback with the position it is given. The wrapped
  callbacks of the void form always return.
\<close>

datatype visit_event = NotNullAt int | NullVisited

definition reference_event :: "Buffer option \<Rightarrow> int \<Rightarrow> int \<Rightarrow> visit_event" where
  "reference_event bitmap off p =
     (if bit_is_set bitmap (off + p) then NotNullAt p else NullVisited)"

definition traced_not_null_void ::
  "(int \<Rightarrow> 's \<Rightarrow> 's) \<Rightarrow> int \<Rightarrow> visit_event list \<times> 's \<Rightarrow> (visit_event list \<times> 's) option" where
  "traced_not_null_void f i = (\<lambda>(log, s). Some (log @ [NotNullAt i], f i s))"

definition traced_null_void ::
  "('s \<Rightarrow> 's) \<Rightarrow> visit_event list \<times> 's \<Rightarrow> (visit_event list \<times> 's) option" where
  "traced_null_void g = (\<lambda>(log, s). Some (log @ [NullVisited], g s))"

text \<open>The wrapped callbacks of the status form pass on what the callback returns.\<close>

definition traced_not_null ::
  "(int \<Rightarrow> 's \<Rightarrow> (Status \<times> 's) option) \<Rightarrow> int \<Rightarrow> visit_event list \<times> 's \<Rightarrow>
     (Status \<times> visit_event list \<times> 's) option" where
  "traced_not_null f i = (\<lambda>(log, s).
     case f i s of None \<Rightarrow> None | Some (st, s') \<Rightarrow> Some (st, log @ [NotNullAt i], s'))"

definition traced_null ::
  "('s \<Rightarrow> (Status \<times> 's) option) \<Rightarrow> visit_event list \<times> 's \<Rightarrow>
     (Status \<times> visit_event list \<times> 's) option" where
  "traced_null g = (\<lambda>(log, s).
     case g s of None \<Rightarrow> None | Some (st, s') \<Rightarrow> Some (st, log @ [NullVisited], s'))"

text \<open>
  What the callback of a value traversal is given at a position: the value of the
  position where the position is valid, and the empty optional where it is null.
\<close>

definition value_or_null :: "Buffer option \<Rightarrow> int \<Rightarrow> (int \<Rightarrow> 'c) \<Rightarrow> int \<Rightarrow> 'c option" where
  "value_or_null bitmap off value_at p =
     (if bit_is_set bitmap (off + p) then Some (value_at p) else None)"

text \<open>
  The value of a position, as section 4.2 of the specification gives it for the four
  layouts: the stored value at the offset plus the position; the bit at the offset plus
  the position; the view into the value bytes bounded by the offsets of the position and
  of the next one, the value bytes not sliced by the offset (and standing in for them,
  when they are absent, the constant \<open>empty_value\<close> that the source takes); the view of
  the width of the type at the offset plus the position times the width. \<open>data\<close> and
  \<open>offsets\<close> are the contents of \<open>buffers[1]\<close>.
\<close>

definition CType_value_at :: "(Buffer \<Rightarrow> int \<Rightarrow> 'c) \<Rightarrow> Buffer \<Rightarrow> ArrayData \<Rightarrow> int \<Rightarrow> 'c" where
  "CType_value_at read data arr i = read data (offset arr + i)"

definition Boolean_value_at :: "Buffer \<Rightarrow> ArrayData \<Rightarrow> int \<Rightarrow> bool" where
  "Boolean_value_at data arr i =
     bit (data ((offset arr + i) div 8)) (nat ((offset arr + i) mod 8))"

definition BaseBinary_view_at ::
  "(Buffer \<Rightarrow> int \<Rightarrow> int) \<Rightarrow> Buffer \<Rightarrow> ArrayData \<Rightarrow> int \<Rightarrow> string_view" where
  "BaseBinary_view_at read offsets arr i =
     \<lparr>sv_data = Pointer (if buffer_at arr 2 = None then EmptyValue else BufferData 2)
                  (read offsets (offset arr + i)),
      sv_size = to_size_t (read offsets (offset arr + (i + 1)) -
                           read offsets (offset arr + i))\<rparr>"

definition FixedSizeBinary_view_at :: "ArrayData \<Rightarrow> int \<Rightarrow> string_view" where
  "FixedSizeBinary_view_at arr i =
     \<lparr>sv_data = Pointer (BufferData 1) ((offset arr + i) * byte_width (type arr)),
      sv_size = to_size_t (byte_width (type arr))\<rparr>"

text \<open>
  Observing an array traversal: \<open>func\<close> is wrapped so that it notes in a log the optional
  value of each of its calls. The wrapped callback of the void form always returns; that
  of the status form passes on what \<open>func\<close> returns.
\<close>

definition traced_func_void ::
  "('c option \<Rightarrow> 's \<Rightarrow> 's) \<Rightarrow> 'c option \<Rightarrow> 'c option list \<times> 's \<Rightarrow>
     ('c option list \<times> 's) option" where
  "traced_func_void h v = (\<lambda>(log, s). Some (log @ [v], h v s))"

definition traced_func ::
  "('c option \<Rightarrow> 's \<Rightarrow> (Status \<times> 's) option) \<Rightarrow> 'c option \<Rightarrow> 'c option list \<times> 's \<Rightarrow>
     (Status \<times> 'c option list \<times> 's) option" where
  "traced_func func v = (\<lambda>(log, s).
     case func v s of None \<Rightarrow> None | Some (st, s') \<Rightarrow> Some (st, log @ [v], s'))"

text \<open>
  The callback \<open>F\<close>, called in order from the state \<open>s\<close>, first fails at position \<open>k\<close>:
  its calls at the positions 0 to \<open>k - 1\<close> return \<open>OK\<close> and lead to the state \<open>sk\<close>,
  and its call at position \<open>k\<close> returns there the status \<open>e\<close>, which is not \<open>ok\<close>, and
  the state \<open>s'\<close>.
\<close>

definition first_failure_at ::
  "(int \<Rightarrow> 's \<Rightarrow> (Status \<times> 's) option) \<Rightarrow> int \<Rightarrow> 's \<Rightarrow> 's \<Rightarrow> Status \<Rightarrow> 's \<Rightarrow> bool" where
  "first_failure_at F k s sk e s' =
     (visit_each_status F [0..k - 1] s = Some (OK, sk) \<and> F k sk = Some (e, s') \<and> \<not> ok e)"

text \<open>
  The callback that section 4.6 of the specification describes for a visitor with two
  methods: an empty optional goes to \<open>visit_null\<close>, a value to \<open>visit_value\<close>.
\<close>

definition dual_method_callback ::
  "('c \<Rightarrow> 'v \<Rightarrow> 'r) \<Rightarrow> ('v \<Rightarrow> 'r) \<Rightarrow> 'c option \<Rightarrow> 'v \<Rightarrow> 'r" where
  "dual_method_callback visit_value visit_null v =
     (case v of None \<Rightarrow> visit_null | Some x \<Rightarrow> visit_value x)"

subsection \<open>Examples\<close>

text \<open>
  Callbacks that collect what they are given, and the arrays of the examples: the string
  array of the specification with the offsets 0, 3, 3, 7, here sliced at offset 1 to the
  length 2; an array of three empty strings without a value buffer; and a fixed-size
  binary array of width 4, sliced at offset 2 to the length 3, whose validity bits 2 and
  4 are set and whose bit 3 is clear; an array with three buffers that every adapter can
  read, sliced at offset 1 to the length 3, whose first position is null and whose
  offsets are the even numbers; and a callback that counts its calls and fails at its
  second call. In the
  examples an offset takes one byte of the offsets buffer, and the label of a type class
  is its place in the list of the classes.
\<close>

definition collect :: "'c option \<Rightarrow> 'c option list \<Rightarrow> (Status \<times> 'c option list) option" where
  "collect v log = Some (OK, log @ [v])"

definition collect_void :: "'c option \<Rightarrow> 'c option list \<Rightarrow> 'c option list option" where
  "collect_void v log = Some (log @ [v])"

definition collect_bit :: "bool \<Rightarrow> bool list \<Rightarrow> bool list option" where
  "collect_bit b log = Some (log @ [b])"

definition example_read :: "Buffer \<Rightarrow> int \<Rightarrow> int" where
  "example_read buf k = uint (buf k)"

definition example_offsets :: Buffer where
  "example_offsets = (\<lambda>k. if k = 1 then 3 else if k = 2 then 3 else if k = 3 then 7 else 0)"

definition example_string_array :: ArrayData where
  "example_string_array =
     \<lparr>type = \<lparr>type_id = 13, ToString = ''string'', byte_width = 0\<rparr>,
      buffers = [None, Some example_offsets, Some (\<lambda>k. 97 + word_of_int k)],
      offset = 1, length' = 2\<rparr>"

definition example_string_array_no_values :: ArrayData where
  "example_string_array_no_values =
     \<lparr>type = \<lparr>type_id = 13, ToString = ''string'', byte_width = 0\<rparr>,
      buffers = [None, Some (\<lambda>k. 0), None],
      offset = 0, length' = 3\<rparr>"

definition example_fixed_size_array :: ArrayData where
  "example_fixed_size_array =
     \<lparr>type = \<lparr>type_id = 17, ToString = ''fixed_size_binary[4]'', byte_width = 4\<rparr>,
      buffers = [Some (\<lambda>k. 0x14), Some (\<lambda>k. word_of_int k)],
      offset = 2, length' = 3\<rparr>"

definition example_array :: ArrayData where
  "example_array =
     \<lparr>type = \<lparr>type_id = 17, ToString = ''fixed_size_binary[4]'', byte_width = 4\<rparr>,
      buffers = [Some (\<lambda>k. 0x0D), Some (\<lambda>k. word_of_int (2 * k)),
                 Some (\<lambda>k. 97 + word_of_int k)],
      offset = 1, length' = 3\<rparr>"

definition count_calls :: "'c option \<Rightarrow> nat \<Rightarrow> nat" where
  "count_calls v n = n + 1"

definition fail_at_second_call :: "'c option \<Rightarrow> nat \<Rightarrow> (Status \<times> nat) option" where
  "fail_at_second_call v n = Some (if n = 1 then Error Invalid ''stop'' else OK, n + 1)"

definition example_label :: "TYPE_CLASS \<Rightarrow> int" where
  "example_label c = int (length (takeWhile (\<lambda>d. d \<noteq> c) ARROW_GENERATE_FOR_ALL_TYPES))"

section \<open>Properties\<close>

subsection \<open>The loops and the reference traversal\<close>

declare for_block_void.simps [simp del] for_block.simps [simp del]
  for_count.simps [simp del] for_count_void.simps [simp del]

declare VisitBitBlocks_while.simps [code] VisitBitBlocksVoid_while.simps [code]
  VisitNullBitmapInline_while.simps [code] VisitNullBitmapInlineVoid_while.simps [code]

lemma visit_each_append:
  "visit_each f (xs @ ys) s =
     (case visit_each f xs s of None \<Rightarrow> None | Some s' \<Rightarrow> visit_each f ys s')"
  by (induction xs arbitrary: s) (auto split: option.splits)

lemma visit_each_cong:
  "(\<And>p s. p \<in> set ps \<Longrightarrow> f p s = g p s) \<Longrightarrow> visit_each f ps s = visit_each g ps s"
  by (induction ps arbitrary: s) (auto split: option.splits)

lemma visit_each_status_append:
  "visit_each_status f (xs @ ys) s =
     (case visit_each_status f xs s of
        None \<Rightarrow> None
      | Some (st, s') \<Rightarrow> if ok st then visit_each_status f ys s' else Some (st, s'))"
  by (induction xs arbitrary: s) (auto split: option.splits)

lemma visit_each_status_cong:
  "(\<And>p s. p \<in> set ps \<Longrightarrow> f p s = g p s) \<Longrightarrow>
     visit_each_status f ps s = visit_each_status g ps s"
  by (induction ps arbitrary: s) (auto split: option.splits)

lemma upto_front: "i < n \<Longrightarrow> [p..p + (n - i) - 1] = p # [p + 1..p + 1 + (n - (i + 1)) - 1]"
  for i n p :: int
  by (simp add: upto_rec1)

lemma for_block_void_eq:
  "for_block_void body n i p s =
     (case visit_each body [p..p + (n - i) - 1] s of
        None \<Rightarrow> None
      | Some s' \<Rightarrow> Some (p + max 0 (n - i), s'))"
proof (induction body n i p s rule: for_block_void.induct)
  case (1 body n i position s)
  show ?case
  proof (cases "i < n")
    case True
    show ?thesis
      using True 1
      by (subst for_block_void.simps, subst upto_front [OF True]) (auto split: option.splits)
  next
    case False
    then show ?thesis by (subst for_block_void.simps) simp
  qed
qed

lemma for_block_void_0:
  "1 \<le> n \<Longrightarrow> for_block_void body n 0 p s =
     (case visit_each body [p..p + n - 1] s of
        None \<Rightarrow> None
      | Some s' \<Rightarrow> Some (p + n, s'))"
  by (simp add: for_block_void_eq split: option.splits)

lemma for_block_eq:
  "for_block body n i p s =
     (case visit_each_status body [p..p + (n - i) - 1] s of
        None \<Rightarrow> None
      | Some (st, s') \<Rightarrow>
          if ok st then Some (Inr (p + max 0 (n - i), s')) else Some (Inl (st, s')))"
proof (induction body n i p s rule: for_block.induct)
  case (1 body n i position s)
  show ?case
  proof (cases "i < n")
    case True
    show ?thesis
      using True 1
      by (subst for_block.simps, subst upto_front [OF True]) (auto split: option.splits)
  next
    case False
    then show ?thesis by (subst for_block.simps) simp
  qed
qed

lemma for_block_0:
  "1 \<le> n \<Longrightarrow> for_block body n 0 p s =
     (case visit_each_status body [p..p + n - 1] s of
        None \<Rightarrow> None
      | Some (st, s') \<Rightarrow> if ok st then Some (Inr (p + n, s')) else Some (Inl (st, s')))"
  by (simp add: for_block_eq split: option.splits)

lemma for_count_void_eq:
  assumes "\<And>j t. i \<le> j \<Longrightarrow> j < n \<Longrightarrow> body j t = g (c + j) t"
  shows "for_count_void body n i s = visit_each g [c + i..c + n - 1] s"
  using assms
proof (induction body n i s rule: for_count_void.induct)
  case (1 body n i s)
  show ?case
  proof (cases "i < n")
    case True
    have up: "[c + i..c + n - 1] = (c + i) # [c + (i + 1)..c + n - 1]"
      using True by (simp add: upto_rec1 add.assoc)
    have b: "body i s = g (c + i) s" using True 1(2) by simp
    show ?thesis
    proof (cases "g (c + i) s")
      case None
      then show ?thesis using True b by (subst for_count_void.simps) (simp add: up)
    next
      case (Some s')
      have "for_count_void body n (i + 1) s' = visit_each g [c + (i + 1)..c + n - 1] s'"
        using True b Some 1(2) by (intro 1(1)) auto
      then show ?thesis using True b Some by (subst for_count_void.simps) (simp add: up)
    qed
  next
    case False
    then show ?thesis by (subst for_count_void.simps) simp
  qed
qed

lemma for_count_eq:
  assumes "\<And>j t. i \<le> j \<Longrightarrow> j < n \<Longrightarrow> body j t = g (c + j) t"
  shows "for_count body n i s =
     (case visit_each_status g [c + i..c + n - 1] s of
        None \<Rightarrow> None
      | Some (st, s') \<Rightarrow> if ok st then Some (Inr s') else Some (Inl (st, s')))"
  using assms
proof (induction body n i s rule: for_count.induct)
  case (1 body n i s)
  show ?case
  proof (cases "i < n")
    case True
    have up: "[c + i..c + n - 1] = (c + i) # [c + (i + 1)..c + n - 1]"
      using True by (simp add: upto_rec1 add.assoc)
    have b: "body i s = g (c + i) s" using True 1(2) by simp
    show ?thesis
    proof (cases "g (c + i) s")
      case None
      then show ?thesis using True b by (subst for_count.simps) (simp add: up)
    next
      case (Some r)
      obtain st s' where r: "r = (st, s')" by (cases r)
      show ?thesis
      proof (cases "ok st")
        case ok: True
        have "for_count body n (i + 1) s' =
          (case visit_each_status g [c + (i + 1)..c + n - 1] s' of
             None \<Rightarrow> None
           | Some (st, s') \<Rightarrow> if ok st then Some (Inr s') else Some (Inl (st, s')))"
          using True b Some r ok 1(2) by (intro 1(1)) auto
        then show ?thesis using True b Some r ok by (subst for_count.simps) (simp add: up)
      next
        case False
        then show ?thesis using True b Some r by (subst for_count.simps) (simp add: up)
      qed
    qed
  next
    case False
    then show ?thesis by (subst for_count.simps) simp
  qed
qed


lemma length_filter_eq_length:
  "(length (filter P xs) = length xs) = (\<forall>x\<in>set xs. P x)"
proof (induction xs)
  case Nil
  show ?case by simp
next
  case (Cons x xs)
  have le: "length (filter P xs) \<le> length xs" by (rule length_filter_le)
  show ?case
  proof (cases "P x")
    case True
    with Cons show ?thesis by simp
  next
    case False
    from le have "length (filter P xs) \<noteq> Suc (length xs)" by linarith
    with False show ?thesis by simp
  qed
qed

lemma CountSetBits_all:
  assumes n: "0 \<le> n"
  shows "(CountSetBits data off n = n) = (\<forall>j\<in>{0..n - 1}. bit_is_set (Some data) (off + j))"
proof -
  have len: "int (length [0..n - 1]) = n" using n by simp
  have "(CountSetBits data off n = n) =
        (length (filter (\<lambda>j. GetBit (Some data) (off + j) = Some True) [0..n - 1]) =
         length [0..n - 1])"
    unfolding CountSetBits_def using len by linarith
  also have "\<dots> = (\<forall>j\<in>set [0..n - 1]. GetBit (Some data) (off + j) = Some True)"
    by (rule length_filter_eq_length)
  finally show ?thesis by (simp add: GetBit_def bit_is_set_def)
qed

lemma CountSetBits_none:
  "(CountSetBits data off n = 0) = (\<forall>j\<in>{0..n - 1}. \<not> bit_is_set (Some data) (off + j))"
  by (simp add: CountSetBits_def filter_empty_conv GetBit_def bit_is_set_def)

lemma NextBlock_at:
  assumes "pos < len"
  shows "NextBlock \<lparr>counter_bitmap = bm, counter_offset = off + pos,
                     bits_remaining = len - pos\<rparr> =
           (\<lparr>block_length = min 64 (len - pos),
             popcount = (case bm of None \<Rightarrow> min 64 (len - pos)
                         | Some data \<Rightarrow> CountSetBits data (off + pos) (min 64 (len - pos)))\<rparr>,
            \<lparr>counter_bitmap = bm, counter_offset = off + (pos + min 64 (len - pos)),
             bits_remaining = len - (pos + min 64 (len - pos))\<rparr>)"
proof -
  have "max 0 (min 64 (len - pos)) = min 64 (len - pos)" using assms by simp
  then show ?thesis by (cases bm) (simp_all add: NextBlock_def Let_def add.assoc)
qed

text \<open>What a run of the scanner says about the bits of its positions.\<close>

lemma block_flags:
  assumes n: "1 \<le> n"
    and blk: "block = \<lparr>block_length = n,
                popcount = (case bm of None \<Rightarrow> n
                            | Some data \<Rightarrow> CountSetBits data (off + pos) n)\<rparr>"
  shows "AllSet block \<Longrightarrow> p \<in> set [pos..pos + n - 1] \<Longrightarrow> bit_is_set bm (off + p)"
    and "\<not> AllSet block \<Longrightarrow> NoneSet block \<Longrightarrow> p \<in> set [pos..pos + n - 1] \<Longrightarrow>
           \<not> bit_is_set bm (off + p)"
    and "\<not> AllSet block \<Longrightarrow> bm \<noteq> None"
proof -
  have rng: "p \<in> set [pos..pos + n - 1] \<Longrightarrow> p - pos \<in> {0..n - 1}" by auto
  have sh: "off + pos + (p - pos) = off + p" by simp
  show "AllSet block \<Longrightarrow> p \<in> set [pos..pos + n - 1] \<Longrightarrow> bit_is_set bm (off + p)"
  proof (cases bm)
    case None
    then show ?thesis by (simp add: bit_is_set_def)
  next
    case (Some data)
    assume "AllSet block" and p: "p \<in> set [pos..pos + n - 1]"
    then have "CountSetBits data (off + pos) n = n" by (simp add: AllSet_def blk Some)
    then have "\<forall>j\<in>{0..n - 1}. bit_is_set (Some data) (off + pos + j)"
      using n by (simp add: CountSetBits_all)
    with rng [OF p] have "bit_is_set (Some data) (off + pos + (p - pos))" by blast
    then show ?thesis by (simp only: sh Some)
  qed
  show nall: "\<not> AllSet block \<Longrightarrow> bm \<noteq> None"
    by (cases bm) (simp_all add: AllSet_def blk)
  show "\<not> AllSet block \<Longrightarrow> NoneSet block \<Longrightarrow> p \<in> set [pos..pos + n - 1] \<Longrightarrow>
           \<not> bit_is_set bm (off + p)"
  proof -
    assume na: "\<not> AllSet block" and "NoneSet block" and p: "p \<in> set [pos..pos + n - 1]"
    from nall [OF na] obtain data where Some: "bm = Some data" by auto
    from \<open>NoneSet block\<close> have "CountSetBits data (off + pos) n = 0"
      by (simp add: NoneSet_def blk Some)
    then have "\<forall>j\<in>{0..n - 1}. \<not> bit_is_set (Some data) (off + pos + j)"
      by (simp add: CountSetBits_none)
    with rng [OF p] have "\<not> bit_is_set (Some data) (off + pos + (p - pos))" by blast
    then show "\<not> bit_is_set bm (off + p)" unfolding sh Some by simp
  qed
qed

lemma visit_by_bit_reference:
  "bm \<noteq> None \<Longrightarrow> visit_by_bit bm off vnn vn = reference_step bm off vnn vn"
  by (intro ext) (auto simp: visit_by_bit_def reference_step_def GetBit_def bit_is_set_def)

lemma func_of_bit_reference:
  "bm \<noteq> None \<Longrightarrow> func_of_bit bm (off + pos) func i s = func (bit_is_set bm (off + (pos + i))) s"
  by (auto simp: func_of_bit_def GetBit_def bit_is_set_def add.assoc)

lemma upto_cut:
  fixes pos n len :: int
  assumes "1 \<le> n" "pos + n \<le> len"
  shows "[pos..len - 1] = [pos..pos + n - 1] @ [pos + n..len - 1]"
proof -
  have le1: "pos \<le> pos + n - 1" and le2: "pos + n - 1 \<le> len - 1" using assms by simp_all
  show ?thesis using upto_split2 [OF le1 le2] by (simp only: diff_add_cancel)
qed

lemma block_run_void:
  assumes n: "1 \<le> n"
    and blk: "block = \<lparr>block_length = n,
                popcount = (case bm of None \<Rightarrow> n
                            | Some data \<Rightarrow> CountSetBits data (off + pos) n)\<rparr>"
  shows "(if AllSet block then for_block_void vnn (block_length block) 0 pos s
          else if NoneSet block then for_block_void (\<lambda>p. vn) (block_length block) 0 pos s
          else for_block_void (visit_by_bit bm off vnn vn) (block_length block) 0 pos s) =
         (case visit_each (reference_step bm off vnn vn) [pos..pos + n - 1] s of
            None \<Rightarrow> None
          | Some s' \<Rightarrow> Some (pos + n, s'))"
proof -
  let ?ref = "reference_step bm off vnn vn"
  have len: "block_length block = n" by (simp add: blk)
  consider (all) "AllSet block" | (none) "\<not> AllSet block" "NoneSet block"
    | (mixed) "\<not> AllSet block" "\<not> NoneSet block" by blast
  then show ?thesis
  proof cases
    case all
    have "visit_each vnn [pos..pos + n - 1] s = visit_each ?ref [pos..pos + n - 1] s"
      by (rule visit_each_cong) (simp add: reference_step_def block_flags(1) [OF n blk all])
    then show ?thesis using all n by (simp add: len for_block_void_0)
  next
    case none
    have "visit_each (\<lambda>p. vn) [pos..pos + n - 1] s = visit_each ?ref [pos..pos + n - 1] s"
      by (rule visit_each_cong) (simp add: reference_step_def block_flags(2) [OF n blk none])
    then show ?thesis using none n by (simp add: len for_block_void_0)
  next
    case mixed
    have "visit_by_bit bm off vnn vn = ?ref"
      by (rule visit_by_bit_reference) (rule block_flags(3) [OF n blk mixed(1)])
    then show ?thesis using mixed n by (simp add: len for_block_void_0)
  qed
qed

lemma block_run:
  assumes n: "1 \<le> n"
    and blk: "block = \<lparr>block_length = n,
                popcount = (case bm of None \<Rightarrow> n
                            | Some data \<Rightarrow> CountSetBits data (off + pos) n)\<rparr>"
  shows "(if AllSet block then for_block vnn (block_length block) 0 pos s
          else if NoneSet block then for_block (\<lambda>p. vn) (block_length block) 0 pos s
          else for_block (visit_by_bit bm off vnn vn) (block_length block) 0 pos s) =
         (case visit_each_status (reference_step bm off vnn vn) [pos..pos + n - 1] s of
            None \<Rightarrow> None
          | Some (st, s') \<Rightarrow>
              if ok st then Some (Inr (pos + n, s')) else Some (Inl (st, s')))"
proof -
  let ?ref = "reference_step bm off vnn vn"
  have len: "block_length block = n" by (simp add: blk)
  consider (all) "AllSet block" | (none) "\<not> AllSet block" "NoneSet block"
    | (mixed) "\<not> AllSet block" "\<not> NoneSet block" by blast
  then show ?thesis
  proof cases
    case all
    have "visit_each_status vnn [pos..pos + n - 1] s =
          visit_each_status ?ref [pos..pos + n - 1] s"
      by (rule visit_each_status_cong)
        (simp add: reference_step_def block_flags(1) [OF n blk all])
    then show ?thesis using all n by (simp add: len for_block_0)
  next
    case none
    have "visit_each_status (\<lambda>p. vn) [pos..pos + n - 1] s =
          visit_each_status ?ref [pos..pos + n - 1] s"
      by (rule visit_each_status_cong)
        (simp add: reference_step_def block_flags(2) [OF n blk none])
    then show ?thesis using none n by (simp add: len for_block_0)
  next
    case mixed
    have "visit_by_bit bm off vnn vn = ?ref"
      by (rule visit_by_bit_reference) (rule block_flags(3) [OF n blk mixed(1)])
    then show ?thesis using mixed n by (simp add: len for_block_0)
  qed
qed

lemma VisitBitBlocksVoid_while_eq:
  "VisitBitBlocksVoid_while bm off len vnn vn
     \<lparr>counter_bitmap = bm, counter_offset = off + pos, bits_remaining = len - pos\<rparr> pos s =
   visit_each (reference_step bm off vnn vn) [pos..len - 1] s"
proof (induction "nat (len - pos)" arbitrary: pos s rule: less_induct)
  case less
  let ?ref = "reference_step bm off vnn vn"
  show ?case
  proof (cases "pos < len")
    case False
    then have "[pos..len - 1] = []" by simp
    then show ?thesis using False by (subst VisitBitBlocksVoid_while.simps) simp
  next
    case True
    define n where "n = min 64 (len - pos)"
    have n: "1 \<le> n" "pos + n \<le> len" using True by (simp_all add: n_def)
    have IH: "\<And>t. VisitBitBlocksVoid_while bm off len vnn vn
        \<lparr>counter_bitmap = bm, counter_offset = off + (pos + n),
          bits_remaining = len - (pos + n)\<rparr>
        (pos + n) t = visit_each ?ref [pos + n..len - 1] t"
      using n True by (intro less) simp
    show ?thesis
      apply (subst VisitBitBlocksVoid_while.simps)
      apply (simp only: True if_True Let_def NextBlock_at [OF True] fst_conv snd_conv)
      apply (fold n_def)
      apply (subst block_run_void [OF n(1) refl])
      apply (simp add: upto_cut [OF n] visit_each_append IH split: option.splits)
      done
  qed
qed

lemma VisitBitBlocks_while_eq:
  "VisitBitBlocks_while bm off len vnn vn
     \<lparr>counter_bitmap = bm, counter_offset = off + pos, bits_remaining = len - pos\<rparr> pos s =
   visit_each_status (reference_step bm off vnn vn) [pos..len - 1] s"
proof (induction "nat (len - pos)" arbitrary: pos s rule: less_induct)
  case less
  let ?ref = "reference_step bm off vnn vn"
  show ?case
  proof (cases "pos < len")
    case False
    then have "[pos..len - 1] = []" by simp
    then show ?thesis using False by (subst VisitBitBlocks_while.simps) simp
  next
    case True
    define n where "n = min 64 (len - pos)"
    have n: "1 \<le> n" "pos + n \<le> len" using True by (simp_all add: n_def)
    have IH: "\<And>t. VisitBitBlocks_while bm off len vnn vn
        \<lparr>counter_bitmap = bm, counter_offset = off + (pos + n),
          bits_remaining = len - (pos + n)\<rparr>
        (pos + n) t = visit_each_status ?ref [pos + n..len - 1] t"
      using n True by (intro less) simp
    show ?thesis
      apply (subst VisitBitBlocks_while.simps)
      apply (simp only: True if_True Let_def NextBlock_at [OF True] fst_conv snd_conv)
      apply (fold n_def)
      apply (subst block_run [OF n(1) refl])
      apply (simp add: upto_cut [OF n] visit_each_status_append IH split: option.splits)
      done
  qed
qed

lemma option_case_id: "(case b of None \<Rightarrow> None | Some buf \<Rightarrow> Some buf) = b"
  by (cases b) simp_all

lemma VisitBitBlocksVoid_eq:
  "VisitBitBlocksVoid bm off len vnn vn s =
     visit_each (reference_step bm off vnn vn) [0..len - 1] s"
  using VisitBitBlocksVoid_while_eq [of bm off len vnn vn 0 s]
  by (simp add: VisitBitBlocksVoid_def OptionalBitBlockCounter_init_def option_case_id)

lemma VisitBitBlocks_eq:
  "VisitBitBlocks bm off len vnn vn s =
     visit_each_status (reference_step bm off vnn vn) [0..len - 1] s"
  using VisitBitBlocks_while_eq [of bm off len vnn vn 0 s]
  by (simp add: VisitBitBlocks_def OptionalBitBlockCounter_init_def option_case_id)


lemma block_run_count:
  assumes n: "1 \<le> n"
    and blk: "block = \<lparr>block_length = n,
                popcount = (case bm of None \<Rightarrow> n
                            | Some data \<Rightarrow> CountSetBits data (off + pos) n)\<rparr>"
  shows "(if AllSet block then for_count (\<lambda>i. func True) (block_length block) 0 s
          else if NoneSet block then for_count (\<lambda>i. func False) (block_length block) 0 s
          else for_count (func_of_bit bm (off + pos) func) (block_length block) 0 s) =
         (case visit_each_status (\<lambda>p. func (bit_is_set bm (off + p))) [pos..pos + n - 1] s of
            None \<Rightarrow> None
          | Some (st, s') \<Rightarrow> if ok st then Some (Inr s') else Some (Inl (st, s')))"
proof -
  let ?g = "\<lambda>p. func (bit_is_set bm (off + p))"
  have len: "block_length block = n" by (simp add: blk)
  have mem: "\<And>j. 0 \<le> j \<Longrightarrow> j < n \<Longrightarrow> pos + j \<in> set [pos..pos + n - 1]" by simp
  note run = for_count_eq [where c = pos and i = 0 and n = n and g = ?g, simplified]
  consider (all) "AllSet block" | (none) "\<not> AllSet block" "NoneSet block"
    | (mixed) "\<not> AllSet block" "\<not> NoneSet block" by blast
  then show ?thesis
  proof cases
    case all
    have "for_count (\<lambda>i. func True) n 0 s =
      (case visit_each_status ?g [pos..pos + n - 1] s of
         None \<Rightarrow> None
       | Some (st, s') \<Rightarrow> if ok st then Some (Inr s') else Some (Inl (st, s')))"
      by (rule run) (simp add: block_flags(1) [OF n blk all mem])
    then show ?thesis using all by (simp add: len)
  next
    case none
    have "for_count (\<lambda>i. func False) n 0 s =
      (case visit_each_status ?g [pos..pos + n - 1] s of
         None \<Rightarrow> None
       | Some (st, s') \<Rightarrow> if ok st then Some (Inr s') else Some (Inl (st, s')))"
      by (rule run) (simp add: block_flags(2) [OF n blk none mem])
    then show ?thesis using none by (simp add: len)
  next
    case mixed
    have "for_count (func_of_bit bm (off + pos) func) n 0 s =
      (case visit_each_status ?g [pos..pos + n - 1] s of
         None \<Rightarrow> None
       | Some (st, s') \<Rightarrow> if ok st then Some (Inr s') else Some (Inl (st, s')))"
      by (rule run) (simp add: func_of_bit_reference [OF block_flags(3) [OF n blk mixed(1)]])
    then show ?thesis using mixed by (simp add: len)
  qed
qed

lemma block_run_count_void:
  assumes n: "1 \<le> n"
    and blk: "block = \<lparr>block_length = n,
                popcount = (case bm of None \<Rightarrow> n
                            | Some data \<Rightarrow> CountSetBits data (off + pos) n)\<rparr>"
  shows "(if AllSet block then for_count_void (\<lambda>i. func True) (block_length block) 0 s
          else if NoneSet block then for_count_void (\<lambda>i. func False) (block_length block) 0 s
          else for_count_void (func_of_bit bm (off + pos) func) (block_length block) 0 s) =
         visit_each (\<lambda>p. func (bit_is_set bm (off + p))) [pos..pos + n - 1] s"
proof -
  let ?g = "\<lambda>p. func (bit_is_set bm (off + p))"
  have len: "block_length block = n" by (simp add: blk)
  have mem: "\<And>j. 0 \<le> j \<Longrightarrow> j < n \<Longrightarrow> pos + j \<in> set [pos..pos + n - 1]" by simp
  note run = for_count_void_eq [where c = pos and i = 0 and n = n and g = ?g, simplified]
  consider (all) "AllSet block" | (none) "\<not> AllSet block" "NoneSet block"
    | (mixed) "\<not> AllSet block" "\<not> NoneSet block" by blast
  then show ?thesis
  proof cases
    case all
    have "for_count_void (\<lambda>i. func True) n 0 s = visit_each ?g [pos..pos + n - 1] s"
      by (rule run) (simp add: block_flags(1) [OF n blk all mem])
    then show ?thesis using all by (simp add: len)
  next
    case none
    have "for_count_void (\<lambda>i. func False) n 0 s = visit_each ?g [pos..pos + n - 1] s"
      by (rule run) (simp add: block_flags(2) [OF n blk none mem])
    then show ?thesis using none by (simp add: len)
  next
    case mixed
    have "for_count_void (func_of_bit bm (off + pos) func) n 0 s =
          visit_each ?g [pos..pos + n - 1] s"
      by (rule run) (simp add: func_of_bit_reference [OF block_flags(3) [OF n blk mixed(1)]])
    then show ?thesis using mixed by (simp add: len)
  qed
qed

lemma VisitNullBitmapInline_while_eq:
  "VisitNullBitmapInline_while bm len func
     \<lparr>counter_bitmap = bm, counter_offset = off + pos, bits_remaining = len - pos\<rparr>
     pos (off + pos) s =
   visit_each_status (\<lambda>p. func (bit_is_set bm (off + p))) [pos..len - 1] s"
proof (induction "nat (len - pos)" arbitrary: pos s rule: less_induct)
  case less
  let ?g = "\<lambda>p. func (bit_is_set bm (off + p))"
  show ?case
  proof (cases "pos < len")
    case False
    then have "[pos..len - 1] = []" by simp
    then show ?thesis using False by (subst VisitNullBitmapInline_while.simps) simp
  next
    case True
    define n where "n = min 64 (len - pos)"
    have n: "1 \<le> n" "pos + n \<le> len" using True by (simp_all add: n_def)
    have IH: "\<And>t. VisitNullBitmapInline_while bm len func
        \<lparr>counter_bitmap = bm, counter_offset = off + (pos + n),
          bits_remaining = len - (pos + n)\<rparr>
        (pos + n) (off + (pos + n)) t = visit_each_status ?g [pos + n..len - 1] t"
      using n True by (intro less) simp
    show ?thesis
      apply (subst VisitNullBitmapInline_while.simps)
      apply (simp only: True if_True Let_def NextBlock_at [OF True] fst_conv snd_conv)
      apply (fold n_def)
      apply (subst block_run_count [OF n(1) refl])
      apply (simp add: upto_cut [OF n] visit_each_status_append IH add.assoc
          split: option.splits)
      done
  qed
qed

lemma VisitNullBitmapInlineVoid_while_eq:
  "VisitNullBitmapInlineVoid_while bm len func
     \<lparr>counter_bitmap = bm, counter_offset = off + pos, bits_remaining = len - pos\<rparr>
     pos (off + pos) s =
   visit_each (\<lambda>p. func (bit_is_set bm (off + p))) [pos..len - 1] s"
proof (induction "nat (len - pos)" arbitrary: pos s rule: less_induct)
  case less
  let ?g = "\<lambda>p. func (bit_is_set bm (off + p))"
  show ?case
  proof (cases "pos < len")
    case False
    then have "[pos..len - 1] = []" by simp
    then show ?thesis using False by (subst VisitNullBitmapInlineVoid_while.simps) simp
  next
    case True
    define n where "n = min 64 (len - pos)"
    have n: "1 \<le> n" "pos + n \<le> len" using True by (simp_all add: n_def)
    have IH: "\<And>t. VisitNullBitmapInlineVoid_while bm len func
        \<lparr>counter_bitmap = bm, counter_offset = off + (pos + n),
          bits_remaining = len - (pos + n)\<rparr>
        (pos + n) (off + (pos + n)) t = visit_each ?g [pos + n..len - 1] t"
      using n True by (intro less) simp
    show ?thesis
      apply (subst VisitNullBitmapInlineVoid_while.simps)
      apply (simp only: True if_True Let_def NextBlock_at [OF True] fst_conv snd_conv)
      apply (fold n_def)
      apply (subst block_run_count_void [OF n(1) refl])
      apply (simp add: upto_cut [OF n] visit_each_append IH add.assoc split: option.splits)
      done
  qed
qed

lemma VisitNullBitmapInline_eq:
  "VisitNullBitmapInline bm off len null_count func s =
     visit_each_status (\<lambda>p. func (bit_is_set bm (off + p))) [0..len - 1] s"
  using VisitNullBitmapInline_while_eq [of bm len func off 0 s]
  by (simp add: VisitNullBitmapInline_def OptionalBitBlockCounter_init_def)

lemma VisitNullBitmapInlineVoid_eq:
  "VisitNullBitmapInlineVoid bm off len null_count func s =
     visit_each (\<lambda>p. func (bit_is_set bm (off + p))) [0..len - 1] s"
  using VisitNullBitmapInlineVoid_while_eq [of bm len func off 0 s]
  by (simp add: VisitNullBitmapInlineVoid_def OptionalBitBlockCounter_init_def)

subsection \<open>Every position is visited once, in order\<close>

lemma traced_void_run:
  "visit_each (reference_step bm off (traced_not_null_void f) (traced_null_void g)) ps (log, s) =
     Some (log @ map (reference_event bm off) ps, fold (reference_step bm off f g) ps s)"
  by (induction ps arbitrary: log s)
    (simp_all add: reference_step_def reference_event_def traced_not_null_void_def
      traced_null_void_def)

text \<open>
  The loop of the void form: for every bitmap (present or absent), offset and length \<open>L\<close>,
  \<open>VisitBitBlocksVoid\<close> returns after exactly \<open>L\<close> calls; the call number \<open>k\<close> (from
  0) is the null callback or the not-null callback at position \<open>k\<close>.
\<close>

lemma VisitBitBlocksVoid_calls_in_order:
  "\<exists>log s'. VisitBitBlocksVoid bitmap off (int L) (traced_not_null_void f)
               (traced_null_void g) ([], s) = Some (log, s') \<and>
     length log = L \<and>
     (\<forall>k<L. log ! k = NotNullAt (int k) \<or> log ! k = NullVisited)"
proof -
  let ?log = "map (reference_event bitmap off) [0..int L - 1]"
  have run: "VisitBitBlocksVoid bitmap off (int L) (traced_not_null_void f)
               (traced_null_void g) ([], s) =
             Some (?log, fold (reference_step bitmap off f g) [0..int L - 1] s)"
    by (simp add: VisitBitBlocksVoid_eq traced_void_run)
  have len: "length ?log = L" by simp
  have "\<forall>k<L. ?log ! k = NotNullAt (int k) \<or> ?log ! k = NullVisited"
  proof (intro allI impI)
    fix k assume k: "k < L"
    then have "[0..int L - 1] ! k = 0 + int k" by (intro nth_upto) simp
    then show "?log ! k = NotNullAt (int k) \<or> ?log ! k = NullVisited"
      using k by (simp add: reference_event_def)
  qed
  with run len show ?thesis by blast
qed

subsection \<open>The runs decide as the single bits do\<close>

text \<open>
  C8: for every bitmap, offset and length, wherever the runs of the scanner begin and end
  (at bit 63/64 or elsewhere), the traversals that are driven by runs do at each position
  what a scan does that tests the bit at the offset plus the position for each position
  from 0 to the length minus 1: \<open>VisitBitBlocks\<close> and \<open>VisitBitBlocksVoid\<close> call the
  not-null callback where that bit is set and the null callback where it is clear, and
  both forms of \<open>VisitNullBitmapInline\<close> pass that bit to the callback.
\<close>

theorem block_runs_refine_bit_by_bit_scan:
  "VisitBitBlocks (Some data) off len visit_not_null visit_null s =
     visit_each_status (reference_step (Some data) off visit_not_null visit_null)
       [0..len - 1] s \<and>
   VisitBitBlocksVoid (Some data) off len visit_not_null_void visit_null_void t =
     visit_each (reference_step (Some data) off visit_not_null_void visit_null_void)
       [0..len - 1] t \<and>
   VisitNullBitmapInline (Some data) off len null_count func s =
     visit_each_status (\<lambda>p. func (bit_is_set (Some data) (off + p))) [0..len - 1] s \<and>
   VisitNullBitmapInlineVoid (Some data) off len null_count func_void t =
     visit_each (\<lambda>p. func_void (bit_is_set (Some data) (off + p))) [0..len - 1] t"
  by (simp only: VisitBitBlocks_eq VisitBitBlocksVoid_eq VisitNullBitmapInline_eq
      VisitNullBitmapInlineVoid_eq simp_thms)

subsection \<open>An absent bitmap\<close>

text \<open>
  C5: when the validity bitmap is absent, every position is reported valid. The value
  traversals do what calling the not-null callback at each position from 0 to the length
  minus 1 does, whatever the null callback is, so the null callback is never called; the
  validity traversals pass \<open>True\<close> at every position.
\<close>

theorem absent_bitmap_all_valid:
  "VisitBitBlocks None off len visit_not_null visit_null s =
     visit_each_status visit_not_null [0..len - 1] s \<and>
   VisitBitBlocksVoid None off len visit_not_null_void visit_null_void t =
     visit_each visit_not_null_void [0..len - 1] t \<and>
   VisitNullBitmapInline None off len null_count func s =
     visit_each_status (\<lambda>p. func True) [0..len - 1] s \<and>
   VisitNullBitmapInlineVoid None off len null_count func_void t =
     visit_each (\<lambda>p. func_void True) [0..len - 1] t"
proof -
  have "reference_step None off visit_not_null visit_null = visit_not_null"
    and "reference_step None off visit_not_null_void visit_null_void = visit_not_null_void"
    by (intro ext, simp add: reference_step_def bit_is_set_def)+
  then show ?thesis
    by (simp add: VisitBitBlocks_eq VisitBitBlocksVoid_eq VisitNullBitmapInline_eq
        VisitNullBitmapInlineVoid_eq bit_is_set_def)
qed

subsection \<open>The null count\<close>

text \<open>
  C9: \<open>null_count\<close> has no influence on \<open>VisitNullBitmapInline\<close>. With the bitmap, the
  offset, the number of values, the callback and its state the same, two calls with any
  two null counts give the same result and the same final state of the callback, in the
  status form and in the void form.
\<close>

theorem VisitNullBitmapInline_ignores_null_count:
  "VisitNullBitmapInline valid_bits valid_bits_offset num_values null_count1 func s =
     VisitNullBitmapInline valid_bits valid_bits_offset num_values null_count2 func s \<and>
   VisitNullBitmapInlineVoid valid_bits valid_bits_offset num_values null_count1 func_void t =
     VisitNullBitmapInlineVoid valid_bits valid_bits_offset num_values null_count2 func_void t"
  by (simp add: VisitNullBitmapInline_def VisitNullBitmapInlineVoid_def)

subsection \<open>The first failure ends the traversal\<close>

lemma traced_step:
  "reference_step bm off f g p s = Some (st, s') \<Longrightarrow>
   reference_step bm off (traced_not_null f) (traced_null g) p (log, s) =
     Some (st, log @ [reference_event bm off p], s')"
  by (simp add: reference_step_def reference_event_def traced_not_null_def traced_null_def
      split: if_splits)

lemma traced_ok_run:
  "visit_each_status (reference_step bm off f g) ps s = Some (st, s') \<Longrightarrow> ok st \<Longrightarrow>
   visit_each_status (reference_step bm off (traced_not_null f) (traced_null g)) ps (log, s) =
     Some (st, log @ map (reference_event bm off) ps, s')"
proof (induction ps arbitrary: s log)
  case Nil
  then show ?case by simp
next
  case (Cons p ps)
  from Cons.prems obtain st1 s1 where step: "reference_step bm off f g p s = Some (st1, s1)"
    by (auto split: option.splits)
  have ok1: "ok st1"
  proof (rule ccontr)
    assume "\<not> ok st1"
    with Cons.prems step show False by simp
  qed
  with Cons.prems step
  have rest: "visit_each_status (reference_step bm off f g) ps s1 = Some (st, s')"
    by simp
  show ?case
    using traced_step [OF step, of log] ok1 Cons.IH [OF rest Cons.prems(2)]
    by simp
qed

text \<open>
  The loop of the status form: let the two callbacks, called in order from the state
  \<open>s\<close>, return \<open>OK\<close> at the positions 0 to \<open>k - 1\<close> and reach the state \<open>sk\<close>, and let
  the callback of position \<open>k\<close> return there the status \<open>e\<close> that is not \<open>ok\<close>, with
  \<open>k\<close> below the length. Then \<open>VisitBitBlocks\<close> returns \<open>e\<close> itself after exactly
  \<open>k + 1\<close> calls, those of the positions 0 to \<open>k\<close>.
\<close>

lemma VisitBitBlocks_first_failure:
  assumes k: "0 \<le> k" "k < len"
    and before: "visit_each_status (reference_step bitmap off f g) [0..k - 1] s = Some (OK, sk)"
    and at_k: "reference_step bitmap off f g k sk = Some (e, s')"
    and fails: "\<not> ok e"
  shows "\<exists>log. VisitBitBlocks bitmap off len (traced_not_null f) (traced_null g) ([], s) =
                  Some (e, log, s') \<and>
           length log = nat k + 1 \<and>
           log = map (reference_event bitmap off) [0..k]"
proof -
  let ?F = "reference_step bitmap off (traced_not_null f) (traced_null g)"
  let ?ev = "reference_event bitmap off"
  have cut1: "[0..len - 1] = [0..k] @ [k + 1..len - 1]"
    using k upto_split2 [of 0 k "len - 1"] by simp
  have cut2: "[0..k] = [0..k - 1] @ [k]"
    using k by (simp add: upto_rec2)
  have pre: "visit_each_status ?F [0..k - 1] ([], s) = Some (OK, map ?ev [0..k - 1], sk)"
    using traced_ok_run [OF before, of "[]"] by simp
  have "visit_each_status ?F [0..k] ([], s) = Some (e, map ?ev [0..k], s')"
    using pre traced_step [OF at_k, of "map ?ev [0..k - 1]"] fails
    by (simp add: cut2 visit_each_status_append)
  then have "visit_each_status ?F [0..len - 1] ([], s) = Some (e, map ?ev [0..k], s')"
    using fails by (simp add: cut1 visit_each_status_append)
  then have "VisitBitBlocks bitmap off len (traced_not_null f) (traced_null g) ([], s) =
      Some (e, map ?ev [0..k], s')"
    by (simp add: VisitBitBlocks_eq)
  moreover have "length (map ?ev [0..k]) = nat k + 1" using k by simp
  ultimately show ?thesis by blast
qed

subsection \<open>The adapters and the reference traversal\<close>

lemma reference_step_value_or_null:
  "reference_step bm off (\<lambda>i. func (Some (value_at i))) (func None) =
     (\<lambda>p. func (value_or_null bm off value_at p))"
  by (intro ext) (simp add: reference_step_def value_or_null_def)

lemma adapter_status_eq:
  assumes "\<And>i s. visit_not_null i s = func (Some (value_at i)) s"
  shows "VisitBitBlocks bm off len visit_not_null (\<lambda>s. func None s) s =
           visit_each_status (\<lambda>p. func (value_or_null bm off value_at p)) [0..len - 1] s"
proof -
  have "visit_not_null = (\<lambda>i. func (Some (value_at i)))"
    by (intro ext) (rule assms)
  then show ?thesis
    by (simp add: VisitBitBlocks_eq reference_step_value_or_null [where func = func])
qed

lemma adapter_void_eq:
  assumes "\<And>i s. visit_not_null i s = func (Some (value_at i)) s"
  shows "VisitBitBlocksVoid bm off len visit_not_null (\<lambda>s. func None s) s =
           visit_each (\<lambda>p. func (value_or_null bm off value_at p)) [0..len - 1] s"
proof -
  have "visit_not_null = (\<lambda>i. func (Some (value_at i)))"
    by (intro ext) (rule assms)
  then show ?thesis
    by (simp add: VisitBitBlocksVoid_eq reference_step_value_or_null [where func = func])
qed

lemma CType_read_at:
  assumes "buffer_at arr 1 = Some data"
  shows "read_at read arr (GetValues arr 1 (offset arr)) i = Some (CType_value_at read data arr i)"
  using assms by (simp add: GetValues_def read_at_def CType_value_at_def)

lemma CType_VisitStatus_eq:
  assumes "buffer_at arr 1 = Some data"
  shows "CType_VisitStatus read arr func s =
           visit_each_status (\<lambda>p. func (value_or_null (buffer_at arr 0) (offset arr)
               (CType_value_at read data arr) p)) [0..length' arr - 1] s"
  unfolding CType_VisitStatus_def Let_def CType_read_at [OF assms]
  by (rule adapter_status_eq) simp

lemma CType_VisitVoid_eq:
  assumes "buffer_at arr 1 = Some data"
  shows "CType_VisitVoid read arr func s =
           visit_each (\<lambda>p. func (value_or_null (buffer_at arr 0) (offset arr)
               (CType_value_at read data arr) p)) [0..length' arr - 1] s"
  unfolding CType_VisitVoid_def Let_def CType_read_at [OF assms]
  by (rule adapter_void_eq) simp

lemma Boolean_GetBit:
  "GetBit (Some data) (offset arr + i) = Some (Boolean_value_at data arr i)"
  by (simp add: GetBit_def Boolean_value_at_def)

lemma Boolean_VisitStatus_eq:
  assumes "buffer_at arr 1 = Some data"
  shows "Boolean_VisitStatus arr func s =
           visit_each_status (\<lambda>p. func (value_or_null (buffer_at arr 0) (offset arr)
               (Boolean_value_at data arr) p)) [0..length' arr - 1] s"
proof -
  have "Boolean_VisitStatus arr func s =
      VisitBitBlocks (buffer_at arr 0) (offset arr) (length' arr)
        (\<lambda>i s. case Some (Boolean_value_at data arr i) of
                  None \<Rightarrow> None
                | Some b \<Rightarrow> func (Some b) s)
        (\<lambda>s. func None s) s"
    using assms unfolding Boolean_VisitStatus_def Boolean_GetBit by simp
  also have "\<dots> = visit_each_status (\<lambda>p. func (value_or_null (buffer_at arr 0) (offset arr)
               (Boolean_value_at data arr) p)) [0..length' arr - 1] s"
    by (rule adapter_status_eq) simp
  finally show ?thesis .
qed

lemma Boolean_VisitVoid_eq:
  assumes "buffer_at arr 1 = Some data"
  shows "Boolean_VisitVoid arr func s =
           visit_each (\<lambda>p. func (value_or_null (buffer_at arr 0) (offset arr)
               (Boolean_value_at data arr) p)) [0..length' arr - 1] s"
proof -
  have "Boolean_VisitVoid arr func s =
      VisitBitBlocksVoid (buffer_at arr 0) (offset arr) (length' arr)
        (\<lambda>i s. case Some (Boolean_value_at data arr i) of
                  None \<Rightarrow> None
                | Some b \<Rightarrow> func (Some b) s)
        (\<lambda>s. func None s) s"
    using assms unfolding Boolean_VisitVoid_def Boolean_GetBit by simp
  also have "\<dots> = visit_each (\<lambda>p. func (value_or_null (buffer_at arr 0) (offset arr)
               (Boolean_value_at data arr) p)) [0..length' arr - 1] s"
    by (rule adapter_void_eq) simp
  finally show ?thesis .
qed

lemma BaseBinary_value_at:
  assumes "buffer_at arr 1 = Some offsets"
  shows "BaseBinary_value read arr (GetValues arr 1 (offset arr)) (BaseBinary_data arr) i =
           Some (BaseBinary_view_at read offsets arr i)"
proof (cases "buffer_at arr 2")
  case None
  then show ?thesis
    using assms
    by (simp add: BaseBinary_value_def GetValues_def read_at_def BaseBinary_data_def
        BaseBinary_view_at_def)
next
  case (Some vals)
  then show ?thesis
    using assms
    by (simp add: BaseBinary_value_def GetValues_def read_at_def BaseBinary_data_def
        BaseBinary_view_at_def)
qed

lemma BaseBinary_VisitStatus_eq:
  assumes "buffer_at arr 1 = Some offsets"
  shows "BaseBinary_VisitStatus read arr func s =
           visit_each_status (\<lambda>p. func (value_or_null (buffer_at arr 0) (offset arr)
               (BaseBinary_view_at read offsets arr) p)) [0..length' arr - 1] s"
  unfolding BaseBinary_VisitStatus_def Let_def BaseBinary_value_at [OF assms]
  by (rule adapter_status_eq) simp

lemma BaseBinary_VisitVoid_eq:
  assumes "buffer_at arr 1 = Some offsets"
  shows "BaseBinary_VisitVoid read arr func s =
           visit_each (\<lambda>p. func (value_or_null (buffer_at arr 0) (offset arr)
               (BaseBinary_view_at read offsets arr) p)) [0..length' arr - 1] s"
  unfolding BaseBinary_VisitVoid_def Let_def BaseBinary_value_at [OF assms]
  by (rule adapter_void_eq) simp

text \<open>The fixed-size binary adapter: the pointer that the callbacks move.\<close>

lemma FixedSizeBinary_thread_status:
  fixes func :: "string_view option \<Rightarrow> 's \<Rightarrow> (Status \<times> 's) option"
  defines "NN w \<equiv> \<lambda>i ds. case FixedSizeBinary_not_null w func i ds of
                           None \<Rightarrow> None
                         | Some (data', st, s') \<Rightarrow> Some (st, data', s')"
    and "NL w \<equiv> \<lambda>ds. case FixedSizeBinary_null w func ds of
                         None \<Rightarrow> None
                       | Some (data', st, s') \<Rightarrow> Some (st, data', s')"
  shows "(case visit_each_status (reference_step bm off (NN w) (NL w)) [p..q]
                (Pointer obj (d + p * w), s) of
            None \<Rightarrow> None
          | Some (st, data', s') \<Rightarrow> Some (st, s')) =
         visit_each_status (\<lambda>i. func (value_or_null bm off
             (\<lambda>i. \<lparr>sv_data = Pointer obj (d + i * w), sv_size = to_size_t w\<rparr>) i)) [p..q] s"
proof (induction "nat (q + 1 - p)" arbitrary: p s)
  case 0
  then have "[p..q] = []" by simp
  then show ?case by simp
next
  case (Suc m)
  then have le: "p \<le> q" by simp
  then have up: "[p..q] = p # [p + 1..q]" by (simp add: upto_rec1)
  have m: "m = nat (q + 1 - (p + 1))" using Suc(2) by simp
  have next_ptr: "d + p * w + w = d + (p + 1) * w" by (simp add: algebra_simps)
  let ?v = "value_or_null bm off
      (\<lambda>i. \<lparr>sv_data = Pointer obj (d + i * w), sv_size = to_size_t w\<rparr>) p"
  have step: "reference_step bm off (NN w) (NL w) p (Pointer obj (d + p * w), s) =
      (case func ?v s of
         None \<Rightarrow> None
       | Some (st, s') \<Rightarrow> Some (st, Pointer obj (d + (p + 1) * w), s'))"
    by (simp add: reference_step_def value_or_null_def NN_def NL_def
        FixedSizeBinary_not_null_def FixedSizeBinary_null_def Let_def next_ptr
        split: option.splits)
  show ?case
  proof (cases "func ?v s")
    case None
    then show ?thesis by (simp add: up step)
  next
    case (Some r)
    obtain st s1 where r: "r = (st, s1)" by (cases r)
    show ?thesis
    proof (cases "ok st")
      case True
      then show ?thesis using Suc(1) [OF m, of s1] by (simp add: up step Some r)
    next
      case False
      then show ?thesis by (simp add: up step Some r)
    qed
  qed
qed

lemma FixedSizeBinary_thread_void:
  fixes func :: "string_view option \<Rightarrow> 's \<Rightarrow> 's option"
  shows "(case visit_each (reference_step bm off (FixedSizeBinary_not_null w func)
                  (FixedSizeBinary_null w func)) [p..q] (Pointer obj (d + p * w), s) of
            None \<Rightarrow> None
          | Some (data', s') \<Rightarrow> Some s') =
         visit_each (\<lambda>i. func (value_or_null bm off
             (\<lambda>i. \<lparr>sv_data = Pointer obj (d + i * w), sv_size = to_size_t w\<rparr>) i)) [p..q] s"
proof (induction "nat (q + 1 - p)" arbitrary: p s)
  case 0
  then have "[p..q] = []" by simp
  then show ?case by simp
next
  case (Suc m)
  then have le: "p \<le> q" by simp
  then have up: "[p..q] = p # [p + 1..q]" by (simp add: upto_rec1)
  have m: "m = nat (q + 1 - (p + 1))" using Suc(2) by simp
  have next_ptr: "d + p * w + w = d + (p + 1) * w" by (simp add: algebra_simps)
  let ?v = "value_or_null bm off
      (\<lambda>i. \<lparr>sv_data = Pointer obj (d + i * w), sv_size = to_size_t w\<rparr>) p"
  have step: "reference_step bm off (FixedSizeBinary_not_null w func)
        (FixedSizeBinary_null w func) p (Pointer obj (d + p * w), s) =
      (case func ?v s of
         None \<Rightarrow> None
       | Some s' \<Rightarrow> Some (Pointer obj (d + (p + 1) * w), s'))"
    by (simp add: reference_step_def value_or_null_def
        FixedSizeBinary_not_null_def FixedSizeBinary_null_def Let_def next_ptr
        split: option.splits)
  show ?case
  proof (cases "func ?v s")
    case None
    then show ?thesis by (simp add: up step)
  next
    case (Some s1)
    then show ?thesis using Suc(1) [OF m, of s1] by (simp add: up step)
  qed
qed

lemma FixedSizeBinary_view_at_alt:
  "(\<lambda>i. \<lparr>sv_data = Pointer (BufferData 1)
                   (offset arr * byte_width (type arr) + i * byte_width (type arr)),
          sv_size = to_size_t (byte_width (type arr))\<rparr>) =
   FixedSizeBinary_view_at arr"
  by (intro ext) (simp add: FixedSizeBinary_view_at_def algebra_simps)

lemma FixedSizeBinary_data:
  assumes "buffer_at arr 1 = Some vals"
  shows "GetValues arr 1 (offset arr * w) = Pointer (BufferData 1) (offset arr * w + 0 * w)"
  using assms by (simp add: GetValues_def)

lemma FixedSizeBinary_VisitStatus_eq:
  assumes "buffer_at arr 1 = Some vals"
  shows "FixedSizeBinary_VisitStatus arr func s =
           visit_each_status (\<lambda>p. func (value_or_null (buffer_at arr 0) (offset arr)
               (FixedSizeBinary_view_at arr) p)) [0..length' arr - 1] s"
  unfolding FixedSizeBinary_VisitStatus_def Let_def VisitBitBlocks_eq
    FixedSizeBinary_data [OF assms]
  by (subst FixedSizeBinary_thread_status
      [where func = func and w = "byte_width (type arr)" and obj = "BufferData 1"
        and d = "offset arr * byte_width (type arr)"])
    (simp only: FixedSizeBinary_view_at_alt)

lemma FixedSizeBinary_VisitVoid_eq:
  assumes "buffer_at arr 1 = Some vals"
  shows "FixedSizeBinary_VisitVoid arr func s =
           visit_each (\<lambda>p. func (value_or_null (buffer_at arr 0) (offset arr)
               (FixedSizeBinary_view_at arr) p)) [0..length' arr - 1] s"
  unfolding FixedSizeBinary_VisitVoid_def Let_def VisitBitBlocksVoid_eq
    FixedSizeBinary_data [OF assms]
  by (subst FixedSizeBinary_thread_void
      [where func = func and w = "byte_width (type arr)" and obj = "BufferData 1"
        and d = "offset arr * byte_width (type arr)"])
    (simp only: FixedSizeBinary_view_at_alt)

subsection \<open>An array traversal visits every position once, in order\<close>

lemma traced_func_void_run:
  "visit_each (\<lambda>p. traced_func_void h (V p)) ps (log, s) =
     Some (log @ map V ps, fold (\<lambda>p. h (V p)) ps s)"
  by (induction ps arbitrary: log s) (simp_all add: traced_func_void_def)

lemma traced_func_void_calls:
  assumes "len = int L"
  shows "\<exists>log s'. visit_each (\<lambda>p. traced_func_void h (V p)) [0..len - 1] ([], s) =
                     Some (log, s') \<and>
           length log = L \<and> (\<forall>k<L. log ! k = V (int k))"
proof -
  let ?log = "map V [0..int L - 1]"
  have run: "visit_each (\<lambda>p. traced_func_void h (V p)) [0..len - 1] ([], s) =
      Some (?log, fold (\<lambda>p. h (V p)) [0..int L - 1] s)"
    by (simp add: traced_func_void_run assms)
  have len: "length ?log = L" by simp
  have "\<forall>k<L. ?log ! k = V (int k)"
  proof (intro allI impI)
    fix k assume k: "k < L"
    then have "[0..int L - 1] ! k = 0 + int k" by (intro nth_upto) simp
    then show "?log ! k = V (int k)" using k by simp
  qed
  with run len show ?thesis by blast
qed

lemma pick_call:
  assumes "\<exists>log s'. R = Some (log, s') \<and> length log = L \<and> (\<forall>k<L. log ! k = E (int k))"
    and "j < L" and "E (int j) = v"
  shows "\<exists>log s'. R = Some (log, s') \<and> length log = L \<and> log ! j = v"
  using assms by auto

text \<open>
  C1: let an array have the length \<open>L\<close> and its buffer 1, with any offset and any
  validity bitmap, present or absent. The void form \<open>VisitVoid\<close> of each of the four
  adapters, which goes through \<open>VisitBitBlocksVoid\<close>, returns after exactly \<open>L\<close> calls of
  \<open>func\<close>; the call number \<open>k\<close> (from 0) is the call for position \<open>k\<close>, with the value
  of that position where it is valid and with the empty optional where it is null. So
  the positions 0 to \<open>L - 1\<close> are visited once each, in increasing order.
\<close>

theorem VisitVoid_every_position_once:
  assumes "length' arr = int L" and "buffer_at arr 1 = Some data"
  shows
    "(\<exists>log s'. CType_VisitVoid read arr (traced_func_void func_c) ([], s) = Some (log, s') \<and>
        length log = L \<and>
        (\<forall>k<L. log ! k = value_or_null (buffer_at arr 0) (offset arr)
                            (CType_value_at read data arr) (int k))) \<and>
     (\<exists>log s'. Boolean_VisitVoid arr (traced_func_void func_b) ([], s) = Some (log, s') \<and>
        length log = L \<and>
        (\<forall>k<L. log ! k = value_or_null (buffer_at arr 0) (offset arr)
                            (Boolean_value_at data arr) (int k))) \<and>
     (\<exists>log s'. BaseBinary_VisitVoid read_offset arr (traced_func_void func_v) ([], s) =
                  Some (log, s') \<and>
        length log = L \<and>
        (\<forall>k<L. log ! k = value_or_null (buffer_at arr 0) (offset arr)
                            (BaseBinary_view_at read_offset data arr) (int k))) \<and>
     (\<exists>log s'. FixedSizeBinary_VisitVoid arr (traced_func_void func_v) ([], s) =
                  Some (log, s') \<and>
        length log = L \<and>
        (\<forall>k<L. log ! k = value_or_null (buffer_at arr 0) (offset arr)
                            (FixedSizeBinary_view_at arr) (int k)))"
  unfolding CType_VisitVoid_eq [OF assms(2)] Boolean_VisitVoid_eq [OF assms(2)]
    BaseBinary_VisitVoid_eq [OF assms(2)] FixedSizeBinary_VisitVoid_eq [OF assms(2)]
  by (intro conjI traced_func_void_calls [OF assms(1)])

theorem VisitVoid_every_position_once_witness:
  "length' example_array = int 3 \<and>
   buffer_at example_array 1 = Some (\<lambda>k. word_of_int (2 * k)) \<and>
   (\<exists>log s'. CType_VisitVoid example_read example_array (traced_func_void count_calls)
                ([], 0 :: nat) = Some (log, s') \<and>
      length log = 3 \<and> log ! 2 = Some 6) \<and>
   (\<exists>log s'. Boolean_VisitVoid example_array (traced_func_void count_calls)
                ([], 0 :: nat) = Some (log, s') \<and>
      length log = 3 \<and> log ! 0 = None) \<and>
   (\<exists>log s'. BaseBinary_VisitVoid example_read example_array (traced_func_void count_calls)
                ([], 0 :: nat) = Some (log, s') \<and>
      length log = 3 \<and> log ! 1 = Some \<lparr>sv_data = Pointer (BufferData 2) 4, sv_size = 2\<rparr>) \<and>
   (\<exists>log s'. FixedSizeBinary_VisitVoid example_array (traced_func_void count_calls)
                ([], 0 :: nat) = Some (log, s') \<and>
      length log = 3 \<and> log ! 2 = Some \<lparr>sv_data = Pointer (BufferData 1) 12, sv_size = 4\<rparr>)"
proof -
  have len: "length' example_array = int 3" by (simp add: example_array_def)
  have buf: "buffer_at example_array 1 = Some (\<lambda>k. word_of_int (2 * k))"
    by (simp add: buffer_at_def example_array_def)
  note all = VisitVoid_every_position_once [OF len buf,
      where read = example_read and read_offset = example_read and s = "0 :: nat"
        and func_c = count_calls and func_b = count_calls and func_v = count_calls]
  have c: "value_or_null (buffer_at example_array 0) (offset example_array)
      (CType_value_at example_read (\<lambda>k. word_of_int (2 * k)) example_array) (int 2) = Some 6"
    by code_simp
  have b: "value_or_null (buffer_at example_array 0) (offset example_array)
      (Boolean_value_at (\<lambda>k. word_of_int (2 * k)) example_array) (int 0) = None"
    by code_simp
  have v: "value_or_null (buffer_at example_array 0) (offset example_array)
      (BaseBinary_view_at example_read (\<lambda>k. word_of_int (2 * k)) example_array) (int 1) =
      Some \<lparr>sv_data = Pointer (BufferData 2) 4, sv_size = 2\<rparr>"
    by code_simp
  have f: "value_or_null (buffer_at example_array 0) (offset example_array)
      (FixedSizeBinary_view_at example_array) (int 2) =
      Some \<lparr>sv_data = Pointer (BufferData 1) 12, sv_size = 4\<rparr>"
    by code_simp
  note r1 = pick_call [OF all [THEN conjunct1] _ c]
  note r2 = pick_call [OF all [THEN conjunct2, THEN conjunct1] _ b]
  note r3 = pick_call [OF all [THEN conjunct2, THEN conjunct2, THEN conjunct1] _ v]
  note r4 = pick_call [OF all [THEN conjunct2, THEN conjunct2, THEN conjunct2] _ f]
  show ?thesis
    by (intro conjI len buf r1 r2 r3 r4) simp_all
qed

subsection \<open>The first failure ends an array traversal\<close>

lemma traced_func_ok_run:
  "visit_each_status (\<lambda>p. func (V p)) ps s = Some (st, s') \<Longrightarrow> ok st \<Longrightarrow>
   visit_each_status (\<lambda>p. traced_func func (V p)) ps (log, s) =
     Some (st, log @ map V ps, s')"
proof (induction ps arbitrary: s log)
  case Nil
  then show ?case by simp
next
  case (Cons p ps)
  from Cons.prems obtain st1 s1 where step: "func (V p) s = Some (st1, s1)"
    by (auto split: option.splits)
  have ok1: "ok st1"
  proof (rule ccontr)
    assume "\<not> ok st1"
    with Cons.prems step show False by simp
  qed
  with Cons.prems step
  have rest: "visit_each_status (\<lambda>p. func (V p)) ps s1 = Some (st, s')"
    by simp
  show ?case
    using step ok1 Cons.IH [OF rest Cons.prems(2), of "log @ [V p]"]
    by (simp add: traced_func_def)
qed

lemma traced_func_first_failure:
  assumes k: "0 \<le> k" "k < len"
    and first: "first_failure_at (\<lambda>p. func (V p)) k s sk e s'"
  shows "\<exists>log. visit_each_status (\<lambda>p. traced_func func (V p)) [0..len - 1] ([], s) =
                  Some (e, log, s') \<and>
           length log = nat k + 1 \<and> log = map V [0..k]"
proof -
  let ?F = "\<lambda>p. traced_func func (V p)"
  from first have before: "visit_each_status (\<lambda>p. func (V p)) [0..k - 1] s = Some (OK, sk)"
    and at_k: "func (V k) sk = Some (e, s')" and fails: "\<not> ok e"
    by (simp_all add: first_failure_at_def)
  have cut1: "[0..len - 1] = [0..k] @ [k + 1..len - 1]"
    using k upto_split2 [of 0 k "len - 1"] by simp
  have cut2: "[0..k] = [0..k - 1] @ [k]"
    using k by (simp add: upto_rec2)
  have pre: "visit_each_status ?F [0..k - 1] ([], s) = Some (OK, map V [0..k - 1], sk)"
    using traced_func_ok_run [OF before, of "[]"] by simp
  have "visit_each_status ?F [0..k] ([], s) = Some (e, map V [0..k], s')"
    using pre at_k fails by (simp add: cut2 visit_each_status_append traced_func_def)
  then have "visit_each_status ?F [0..len - 1] ([], s) = Some (e, map V [0..k], s')"
    using fails by (simp add: cut1 visit_each_status_append)
  moreover have "length (map V [0..k]) = nat k + 1" using k by simp
  ultimately show ?thesis by blast
qed

text \<open>
  C2: let an array have its buffer 1, and let \<open>k\<close> be a position of it. If \<open>func\<close>,
  called in order from the state \<open>s\<close> with the values of the positions (the empty optional
  at a null position), first fails at position \<open>k\<close>, with the status \<open>e\<close>, then the status
  form \<open>VisitStatus\<close> of each of the four adapters, which goes through \<open>VisitBitBlocks\<close>,
  returns \<open>e\<close> itself and the state that the call at position \<open>k\<close> left; it has called
  \<open>func\<close> exactly \<open>k + 1\<close> times, for the positions 0 to \<open>k\<close> in this order and for no
  other.
\<close>

theorem VisitStatus_fails_fast:
  assumes "0 \<le> k" and "k < length' arr" and "buffer_at arr 1 = Some data"
  shows
    "(first_failure_at (\<lambda>p. func_c (value_or_null (buffer_at arr 0) (offset arr)
          (CType_value_at read data arr) p)) k s sk e s' \<longrightarrow>
      (\<exists>log. CType_VisitStatus read arr (traced_func func_c) ([], s) = Some (e, log, s') \<and>
         length log = nat k + 1 \<and>
         log = map (value_or_null (buffer_at arr 0) (offset arr)
                      (CType_value_at read data arr)) [0..k])) \<and>
     (first_failure_at (\<lambda>p. func_b (value_or_null (buffer_at arr 0) (offset arr)
          (Boolean_value_at data arr) p)) k s sk e s' \<longrightarrow>
      (\<exists>log. Boolean_VisitStatus arr (traced_func func_b) ([], s) = Some (e, log, s') \<and>
         length log = nat k + 1 \<and>
         log = map (value_or_null (buffer_at arr 0) (offset arr)
                      (Boolean_value_at data arr)) [0..k])) \<and>
     (first_failure_at (\<lambda>p. func_v (value_or_null (buffer_at arr 0) (offset arr)
          (BaseBinary_view_at read_offset data arr) p)) k s sk e s' \<longrightarrow>
      (\<exists>log. BaseBinary_VisitStatus read_offset arr (traced_func func_v) ([], s) =
                Some (e, log, s') \<and>
         length log = nat k + 1 \<and>
         log = map (value_or_null (buffer_at arr 0) (offset arr)
                      (BaseBinary_view_at read_offset data arr)) [0..k])) \<and>
     (first_failure_at (\<lambda>p. func_w (value_or_null (buffer_at arr 0) (offset arr)
          (FixedSizeBinary_view_at arr) p)) k s sk e s' \<longrightarrow>
      (\<exists>log. FixedSizeBinary_VisitStatus arr (traced_func func_w) ([], s) =
                Some (e, log, s') \<and>
         length log = nat k + 1 \<and>
         log = map (value_or_null (buffer_at arr 0) (offset arr)
                      (FixedSizeBinary_view_at arr)) [0..k]))"
  unfolding CType_VisitStatus_eq [OF assms(3)] Boolean_VisitStatus_eq [OF assms(3)]
    BaseBinary_VisitStatus_eq [OF assms(3)] FixedSizeBinary_VisitStatus_eq [OF assms(3)]
  by (intro conjI impI traced_func_first_failure [OF assms(1,2)])

theorem VisitStatus_fails_fast_witness:
  "CType_VisitStatus example_read example_array (traced_func fail_at_second_call)
       ([], 0 :: nat) =
     Some (Error Invalid ''stop'', [None, Some 4], 2) \<and>
   Boolean_VisitStatus example_array (traced_func fail_at_second_call) ([], 0 :: nat) =
     Some (Error Invalid ''stop'', [None, Some False], 2) \<and>
   BaseBinary_VisitStatus example_read example_array (traced_func fail_at_second_call)
       ([], 0 :: nat) =
     Some (Error Invalid ''stop'',
           [None, Some \<lparr>sv_data = Pointer (BufferData 2) 4, sv_size = 2\<rparr>], 2) \<and>
   FixedSizeBinary_VisitStatus example_array (traced_func fail_at_second_call)
       ([], 0 :: nat) =
     Some (Error Invalid ''stop'',
           [None, Some \<lparr>sv_data = Pointer (BufferData 1) 8, sv_size = 4\<rparr>], 2)"
proof -
  let ?data = "\<lambda>k :: int. word_of_int (2 * k) :: 8 word"
  let ?e = "Error Invalid ''stop''"
  have k: "(0 :: int) \<le> 1" "1 < length' example_array" by (simp_all add: example_array_def)
  have buf: "buffer_at example_array 1 = Some ?data"
    by (simp add: buffer_at_def example_array_def)
  note all = VisitStatus_fails_fast [OF k buf,
      where read = example_read and read_offset = example_read and s = "0 :: nat"
        and sk = 1 and e = ?e and s' = 2
        and func_c = fail_at_second_call and func_b = fail_at_second_call
        and func_v = fail_at_second_call and func_w = fail_at_second_call]
  have hc: "first_failure_at (\<lambda>p. fail_at_second_call
        (value_or_null (buffer_at example_array 0) (offset example_array)
          (CType_value_at example_read ?data example_array) p)) 1 0 1 ?e 2"
    by code_simp
  have hb: "first_failure_at (\<lambda>p. fail_at_second_call
        (value_or_null (buffer_at example_array 0) (offset example_array)
          (Boolean_value_at ?data example_array) p)) 1 0 1 ?e 2"
    by code_simp
  have hv: "first_failure_at (\<lambda>p. fail_at_second_call
        (value_or_null (buffer_at example_array 0) (offset example_array)
          (BaseBinary_view_at example_read ?data example_array) p)) 1 0 1 ?e 2"
    by code_simp
  have hw: "first_failure_at (\<lambda>p. fail_at_second_call
        (value_or_null (buffer_at example_array 0) (offset example_array)
          (FixedSizeBinary_view_at example_array) p)) 1 0 1 ?e 2"
    by code_simp
  have mc: "map (value_or_null (buffer_at example_array 0) (offset example_array)
        (CType_value_at example_read ?data example_array)) [0..1] = [None, Some 4]"
    by code_simp
  have mb: "map (value_or_null (buffer_at example_array 0) (offset example_array)
        (Boolean_value_at ?data example_array)) [0..1] = [None, Some False]"
    by code_simp
  have mv: "map (value_or_null (buffer_at example_array 0) (offset example_array)
        (BaseBinary_view_at example_read ?data example_array)) [0..1] =
      [None, Some \<lparr>sv_data = Pointer (BufferData 2) 4, sv_size = 2\<rparr>]"
    by code_simp
  have mw: "map (value_or_null (buffer_at example_array 0) (offset example_array)
        (FixedSizeBinary_view_at example_array)) [0..1] =
      [None, Some \<lparr>sv_data = Pointer (BufferData 1) 8, sv_size = 4\<rparr>]"
    by code_simp
  from all [THEN conjunct1, THEN mp, OF hc] mc
  have r1: "CType_VisitStatus example_read example_array (traced_func fail_at_second_call)
       ([], 0 :: nat) = Some (?e, [None, Some 4], 2)"
    by auto
  from all [THEN conjunct2, THEN conjunct1, THEN mp, OF hb] mb
  have r2: "Boolean_VisitStatus example_array (traced_func fail_at_second_call)
       ([], 0 :: nat) = Some (?e, [None, Some False], 2)"
    by auto
  from all [THEN conjunct2, THEN conjunct2, THEN conjunct1, THEN mp, OF hv] mv
  have r3: "BaseBinary_VisitStatus example_read example_array
       (traced_func fail_at_second_call) ([], 0 :: nat) =
     Some (?e, [None, Some \<lparr>sv_data = Pointer (BufferData 2) 4, sv_size = 2\<rparr>], 2)"
    by auto
  from all [THEN conjunct2, THEN conjunct2, THEN conjunct2, THEN mp, OF hw] mw
  have r4: "FixedSizeBinary_VisitStatus example_array (traced_func fail_at_second_call)
       ([], 0 :: nat) =
     Some (?e, [None, Some \<lparr>sv_data = Pointer (BufferData 1) 8, sv_size = 4\<rparr>], 2)"
    by auto
  from r1 r2 r3 r4 show ?thesis by (intro conjI)
qed

subsection \<open>The views of the binary adapter\<close>

lemma to_size_t_id: "0 \<le> n \<Longrightarrow> n < 2 ^ 64 \<Longrightarrow> to_size_t n = n"
  by (simp add: to_size_t_def)

text \<open>
  C3: let a binary or string array have its offsets and its value buffer, the offsets of
  its positions be non-decreasing, as the data model has them, and be values of an offset
  type of at most 64 bits. Whatever the offset of the array, the adapter does what
  calling the callback at each position from 0 to the length minus 1 does, with the empty
  optional at a null position and, at a valid position \<open>i\<close>, with the view that starts at
  \<open>offsets[i]\<close> bytes from the start of the value buffer, the array's offset not applied
  to it, and has the size \<open>offsets[i + 1] - offsets[i]\<close>; \<open>offsets\<close> is the pointer of the
  source, \<open>arr.GetValues<offset_type>(1)\<close>, so \<open>offsets[i]\<close> is entry \<open>offset + i\<close> of
  \<open>buffers[1]\<close>.
\<close>

theorem BaseBinary_view_bounds:
  assumes "buffer_at arr 1 = Some offsets" and "buffer_at arr 2 = Some vals"
    and monotone: "\<forall>i\<in>set [0..length' arr - 1].
        read offsets (offset arr + i) \<le> read offsets (offset arr + (i + 1))"
    and range: "\<forall>i\<in>set [0..length' arr].
        - (2 ^ 63) \<le> read offsets (offset arr + i) \<and> read offsets (offset arr + i) < 2 ^ 63"
  shows "BaseBinary_VisitStatus read arr func s =
           visit_each_status (\<lambda>p. func (value_or_null (buffer_at arr 0) (offset arr)
               (\<lambda>i. \<lparr>sv_data = Pointer (BufferData 2) (read offsets (offset arr + i)),
                      sv_size = read offsets (offset arr + (i + 1)) -
                                read offsets (offset arr + i)\<rparr>) p))
             [0..length' arr - 1] s \<and>
         BaseBinary_VisitVoid read arr func_void t =
           visit_each (\<lambda>p. func_void (value_or_null (buffer_at arr 0) (offset arr)
               (\<lambda>i. \<lparr>sv_data = Pointer (BufferData 2) (read offsets (offset arr + i)),
                      sv_size = read offsets (offset arr + (i + 1)) -
                                read offsets (offset arr + i)\<rparr>) p))
             [0..length' arr - 1] t"
proof -
  let ?view = "\<lambda>i. \<lparr>sv_data = Pointer (BufferData 2) (read offsets (offset arr + i)),
                      sv_size = read offsets (offset arr + (i + 1)) -
                                read offsets (offset arr + i)\<rparr>"
  have view: "BaseBinary_view_at read offsets arr p = ?view p"
    if p: "p \<in> set [0..length' arr - 1]" for p
  proof -
    from p have "p \<in> set [0..length' arr]" and "p + 1 \<in> set [0..length' arr]" by simp_all
    with range have "- (2 ^ 63) \<le> read offsets (offset arr + p)"
      and "read offsets (offset arr + (p + 1)) < 2 ^ 63" by blast+
    moreover from monotone p
    have "read offsets (offset arr + p) \<le> read offsets (offset arr + (p + 1))" by blast
    ultimately have "to_size_t (read offsets (offset arr + (p + 1)) -
        read offsets (offset arr + p)) =
        read offsets (offset arr + (p + 1)) - read offsets (offset arr + p)"
      by (intro to_size_t_id) simp_all
    then show ?thesis using assms(2) by (simp add: BaseBinary_view_at_def)
  qed
  have "visit_each_status (\<lambda>p. func (value_or_null (buffer_at arr 0) (offset arr)
            (BaseBinary_view_at read offsets arr) p)) [0..length' arr - 1] s =
        visit_each_status (\<lambda>p. func (value_or_null (buffer_at arr 0) (offset arr) ?view p))
          [0..length' arr - 1] s"
    by (rule visit_each_status_cong) (simp only: value_or_null_def view)
  moreover
  have "visit_each (\<lambda>p. func_void (value_or_null (buffer_at arr 0) (offset arr)
            (BaseBinary_view_at read offsets arr) p)) [0..length' arr - 1] t =
        visit_each (\<lambda>p. func_void (value_or_null (buffer_at arr 0) (offset arr) ?view p))
          [0..length' arr - 1] t"
    by (rule visit_each_cong) (simp only: value_or_null_def view)
  ultimately show ?thesis
    by (simp only: BaseBinary_VisitStatus_eq [OF assms(1)] BaseBinary_VisitVoid_eq [OF assms(1)]
        simp_thms)
qed

theorem BaseBinary_view_bounds_witness:
  "buffer_at example_string_array 1 = Some example_offsets \<and>
   buffer_at example_string_array 2 = Some (\<lambda>k. 97 + word_of_int k) \<and>
   BaseBinary_VisitStatus example_read example_string_array collect [] =
     Some (OK, [Some \<lparr>sv_data = Pointer (BufferData 2) 3, sv_size = 0\<rparr>,
                Some \<lparr>sv_data = Pointer (BufferData 2) 3, sv_size = 4\<rparr>]) \<and>
   BaseBinary_VisitVoid example_read example_string_array collect_void [] =
     Some [Some \<lparr>sv_data = Pointer (BufferData 2) 3, sv_size = 0\<rparr>,
           Some \<lparr>sv_data = Pointer (BufferData 2) 3, sv_size = 4\<rparr>]"
proof -
  have offsets: "buffer_at example_string_array 1 = Some example_offsets"
    by (simp add: buffer_at_def example_string_array_def)
  have vals: "buffer_at example_string_array 2 = Some (\<lambda>k. 97 + word_of_int k)"
    by (simp add: buffer_at_def example_string_array_def)
  have no_bitmap: "buffer_at example_string_array 0 = None"
    by (simp add: buffer_at_def example_string_array_def)
  have range: "[0..length' example_string_array - 1] = [0, 1]"
    by (simp add: example_string_array_def upto.simps)
  have range1: "[0..length' example_string_array] = [0, 1, 2]"
    by (simp add: example_string_array_def upto.simps)
  have off: "offset example_string_array = 1" by (simp add: example_string_array_def)
  have monotone: "\<forall>i\<in>set [0..length' example_string_array - 1].
      example_read example_offsets (offset example_string_array + i) \<le>
      example_read example_offsets (offset example_string_array + (i + 1))"
    by (simp add: range off example_read_def example_offsets_def)
  have bounded: "\<forall>i\<in>set [0..length' example_string_array].
      - (2 ^ 63) \<le> example_read example_offsets (offset example_string_array + i) \<and>
      example_read example_offsets (offset example_string_array + i) < 2 ^ 63"
    by (simp add: range1 off example_read_def example_offsets_def)
  show ?thesis
    using BaseBinary_view_bounds
      [where read = example_read and offsets = example_offsets
         and arr = example_string_array and func = collect and s = "[]"
         and func_void = collect_void and t = "[]",
       OF offsets vals monotone bounded] offsets vals
    by (simp add: no_bitmap range off collect_def collect_void_def value_or_null_def
        bit_is_set_def example_read_def example_offsets_def)
qed

text \<open>
  C10: for a binary or string array with its three buffer entries whose value buffer is
  absent, the adapter takes the address of \<open>empty_value\<close> as \<open>data\<close>, which is not the
  null pointer; the traversal is again that of the callback over the positions, with views
  into \<open>empty_value\<close> whose sizes are the differences of the offsets as \<open>size_t\<close>, so no
  read through a null pointer keeps it from returning. When \<open>offsets[i + 1] - offsets[i]\<close>
  is 0 at every position, every view has the size 0.
\<close>

theorem BaseBinary_absent_value_buffer:
  assumes "buffer_at arr 1 = Some offsets"
    and "length (buffers arr) = 3" and "buffers arr ! 2 = None"
  shows "BaseBinary_data arr = Pointer EmptyValue 0 \<and>
         BaseBinary_data arr \<noteq> NULLPTR \<and>
         BaseBinary_VisitStatus read arr func s =
           visit_each_status (\<lambda>p. func (value_or_null (buffer_at arr 0) (offset arr)
               (\<lambda>i. \<lparr>sv_data = Pointer EmptyValue (read offsets (offset arr + i)),
                      sv_size = to_size_t (read offsets (offset arr + (i + 1)) -
                                           read offsets (offset arr + i))\<rparr>) p))
             [0..length' arr - 1] s \<and>
         BaseBinary_VisitVoid read arr func_void t =
           visit_each (\<lambda>p. func_void (value_or_null (buffer_at arr 0) (offset arr)
               (\<lambda>i. \<lparr>sv_data = Pointer EmptyValue (read offsets (offset arr + i)),
                      sv_size = to_size_t (read offsets (offset arr + (i + 1)) -
                                           read offsets (offset arr + i))\<rparr>) p))
             [0..length' arr - 1] t \<and>
         ((\<forall>i\<in>set [0..length' arr - 1].
              read offsets (offset arr + (i + 1)) - read offsets (offset arr + i) = 0) \<longrightarrow>
          BaseBinary_VisitStatus read arr func s =
            visit_each_status (\<lambda>p. func (value_or_null (buffer_at arr 0) (offset arr)
                (\<lambda>i. \<lparr>sv_data = Pointer EmptyValue (read offsets (offset arr + i)),
                       sv_size = 0\<rparr>) p))
              [0..length' arr - 1] s \<and>
          BaseBinary_VisitVoid read arr func_void t =
            visit_each (\<lambda>p. func_void (value_or_null (buffer_at arr 0) (offset arr)
                (\<lambda>i. \<lparr>sv_data = Pointer EmptyValue (read offsets (offset arr + i)),
                       sv_size = 0\<rparr>) p))
              [0..length' arr - 1] t)"
proof -
  let ?view = "\<lambda>i. \<lparr>sv_data = Pointer EmptyValue (read offsets (offset arr + i)),
                      sv_size = to_size_t (read offsets (offset arr + (i + 1)) -
                                           read offsets (offset arr + i))\<rparr>"
  let ?empty = "\<lambda>i. \<lparr>sv_data = Pointer EmptyValue (read offsets (offset arr + i)),
                       sv_size = 0\<rparr>"
  have absent: "buffer_at arr 2 = None"
    using assms(2,3) by (simp add: buffer_at_def)
  have data: "BaseBinary_data arr = Pointer EmptyValue 0"
    using absent by (simp add: BaseBinary_data_def)
  have view: "BaseBinary_view_at read offsets arr = ?view"
    using absent by (intro ext) (simp add: BaseBinary_view_at_def)
  have general: "BaseBinary_VisitStatus read arr func s =
           visit_each_status (\<lambda>p. func (value_or_null (buffer_at arr 0) (offset arr) ?view p))
             [0..length' arr - 1] s"
    "BaseBinary_VisitVoid read arr func_void t =
           visit_each (\<lambda>p. func_void (value_or_null (buffer_at arr 0) (offset arr) ?view p))
             [0..length' arr - 1] t"
    by (simp_all only: BaseBinary_VisitStatus_eq [OF assms(1)]
        BaseBinary_VisitVoid_eq [OF assms(1)] view)
  have empty: "BaseBinary_VisitStatus read arr func s =
            visit_each_status (\<lambda>p. func (value_or_null (buffer_at arr 0) (offset arr) ?empty p))
              [0..length' arr - 1] s \<and>
          BaseBinary_VisitVoid read arr func_void t =
            visit_each (\<lambda>p. func_void (value_or_null (buffer_at arr 0) (offset arr) ?empty p))
              [0..length' arr - 1] t"
    if zero: "\<forall>i\<in>set [0..length' arr - 1].
              read offsets (offset arr + (i + 1)) - read offsets (offset arr + i) = 0"
  proof -
    have "visit_each_status (\<lambda>p. func (value_or_null (buffer_at arr 0) (offset arr) ?view p))
             [0..length' arr - 1] s =
          visit_each_status (\<lambda>p. func (value_or_null (buffer_at arr 0) (offset arr) ?empty p))
              [0..length' arr - 1] s"
      by (rule visit_each_status_cong)
        (use zero in \<open>simp add: value_or_null_def to_size_t_def\<close>)
    moreover
    have "visit_each (\<lambda>p. func_void (value_or_null (buffer_at arr 0) (offset arr) ?view p))
             [0..length' arr - 1] t =
          visit_each (\<lambda>p. func_void (value_or_null (buffer_at arr 0) (offset arr) ?empty p))
              [0..length' arr - 1] t"
      by (rule visit_each_cong)
        (use zero in \<open>simp add: value_or_null_def to_size_t_def\<close>)
    ultimately show ?thesis using general by simp
  qed
  have "BaseBinary_data arr \<noteq> NULLPTR" by (simp add: data NULLPTR_def)
  with data general empty show ?thesis by blast
qed

theorem BaseBinary_absent_value_buffer_witness:
  "buffer_at example_string_array_no_values 1 = Some (\<lambda>k. 0) \<and>
   length (buffers example_string_array_no_values) = 3 \<and>
   buffers example_string_array_no_values ! 2 = None \<and>
   BaseBinary_VisitStatus example_read example_string_array_no_values collect [] =
     Some (OK, [Some \<lparr>sv_data = Pointer EmptyValue 0, sv_size = 0\<rparr>,
                Some \<lparr>sv_data = Pointer EmptyValue 0, sv_size = 0\<rparr>,
                Some \<lparr>sv_data = Pointer EmptyValue 0, sv_size = 0\<rparr>])"
proof -
  have offsets: "buffer_at example_string_array_no_values 1 = Some (\<lambda>k. 0)"
    by (simp add: buffer_at_def example_string_array_no_values_def)
  have three: "length (buffers example_string_array_no_values) = 3"
    by (simp add: example_string_array_no_values_def)
  have absent: "buffers example_string_array_no_values ! 2 = None"
    by (simp add: example_string_array_no_values_def)
  have no_bitmap: "buffer_at example_string_array_no_values 0 = None"
    by (simp add: buffer_at_def example_string_array_no_values_def)
  have range: "[0..length' example_string_array_no_values - 1] = [0, 1, 2]"
    by (simp add: example_string_array_no_values_def upto.simps)
  have zero: "\<forall>i\<in>set [0..length' example_string_array_no_values - 1].
      example_read (\<lambda>k. 0) (offset example_string_array_no_values + (i + 1)) -
      example_read (\<lambda>k. 0) (offset example_string_array_no_values + i) = 0"
    by (simp add: example_read_def)
  show ?thesis
    using BaseBinary_absent_value_buffer
      [where read = example_read and arr = example_string_array_no_values
         and func = collect and s = "[]" and func_void = collect_void and t = "[]",
       OF offsets three absent]
      offsets three absent zero
    by (simp add: no_bitmap range collect_def collect_void_def value_or_null_def
        bit_is_set_def example_read_def to_size_t_def)
qed

subsection \<open>The views of the fixed-size binary adapter\<close>

text \<open>
  C4: for a fixed-size binary array with its data buffer, whose byte width \<open>w\<close> is a
  non-negative \<open>int32_t\<close>, the adapter does what calling the callback at each position
  from 0 to the length minus 1 does, with the empty optional at a null position and, at a
  valid position \<open>i\<close>, with the view of size \<open>w\<close> that starts at byte \<open>(offset + i) * w\<close>
  of the data buffer, whatever the validity of the positions before \<open>i\<close>.
\<close>

theorem FixedSizeBinary_view_bounds:
  assumes "buffer_at arr 1 = Some vals"
    and "0 \<le> byte_width (type arr)" and "byte_width (type arr) < 2 ^ 31"
  shows "FixedSizeBinary_VisitStatus arr func s =
           visit_each_status (\<lambda>p. func (value_or_null (buffer_at arr 0) (offset arr)
               (\<lambda>i. \<lparr>sv_data = Pointer (BufferData 1) ((offset arr + i) * byte_width (type arr)),
                      sv_size = byte_width (type arr)\<rparr>) p))
             [0..length' arr - 1] s \<and>
         FixedSizeBinary_VisitVoid arr func_void t =
           visit_each (\<lambda>p. func_void (value_or_null (buffer_at arr 0) (offset arr)
               (\<lambda>i. \<lparr>sv_data = Pointer (BufferData 1) ((offset arr + i) * byte_width (type arr)),
                      sv_size = byte_width (type arr)\<rparr>) p))
             [0..length' arr - 1] t"
proof -
  have "to_size_t (byte_width (type arr)) = byte_width (type arr)"
    using assms(2,3) by (intro to_size_t_id) simp_all
  then have view: "FixedSizeBinary_view_at arr =
      (\<lambda>i. \<lparr>sv_data = Pointer (BufferData 1) ((offset arr + i) * byte_width (type arr)),
             sv_size = byte_width (type arr)\<rparr>)"
    by (intro ext) (simp add: FixedSizeBinary_view_at_def)
  show ?thesis
    by (simp only: FixedSizeBinary_VisitStatus_eq [OF assms(1)]
        FixedSizeBinary_VisitVoid_eq [OF assms(1)] view simp_thms)
qed

theorem FixedSizeBinary_view_bounds_witness:
  "buffer_at example_fixed_size_array 1 = Some (\<lambda>k. word_of_int k) \<and>
   0 \<le> byte_width (type example_fixed_size_array) \<and>
   byte_width (type example_fixed_size_array) < 2 ^ 31 \<and>
   FixedSizeBinary_VisitStatus example_fixed_size_array collect [] =
     Some (OK, [Some \<lparr>sv_data = Pointer (BufferData 1) 8, sv_size = 4\<rparr>,
                None,
                Some \<lparr>sv_data = Pointer (BufferData 1) 16, sv_size = 4\<rparr>]) \<and>
   FixedSizeBinary_VisitVoid example_fixed_size_array collect_void [] =
     Some [Some \<lparr>sv_data = Pointer (BufferData 1) 8, sv_size = 4\<rparr>,
           None,
           Some \<lparr>sv_data = Pointer (BufferData 1) 16, sv_size = 4\<rparr>]"
proof -
  have vals: "buffer_at example_fixed_size_array 1 = Some (\<lambda>k. word_of_int k)"
    by (simp add: buffer_at_def example_fixed_size_array_def)
  have bitmap: "buffer_at example_fixed_size_array 0 = Some (\<lambda>k. 0x14)"
    by (simp add: buffer_at_def example_fixed_size_array_def)
  have range: "[0..length' example_fixed_size_array - 1] = [0, 1, 2]"
    by (simp add: example_fixed_size_array_def upto.simps)
  have off: "offset example_fixed_size_array = 2"
    and width: "byte_width (type example_fixed_size_array) = 4"
    by (simp_all add: example_fixed_size_array_def)
  have w0: "0 \<le> byte_width (type example_fixed_size_array)"
    and w31: "byte_width (type example_fixed_size_array) < 2 ^ 31"
    by (simp_all add: width)
  have bit2: "bit (0x14 :: 8 word) (2 :: nat)" by code_simp
  have bit3: "\<not> bit (0x14 :: 8 word) (3 :: nat)" by code_simp
  have bit4: "bit (0x14 :: 8 word) (4 :: nat)" by code_simp
  note bits = bit2 bit3 bit4
  show ?thesis
    using FixedSizeBinary_view_bounds [OF vals w0 w31, of collect "[]" collect_void "[]"]
      vals w0 w31
    by (simp add: bitmap range off width collect_def collect_void_def value_or_null_def
        bit_is_set_def bits)
qed

subsection \<open>The visitor with two methods\<close>

lemma ArrayDataVisitor_func_dual:
  "ArrayDataVisitor_func VisitValue VisitNull = dual_method_callback VisitValue VisitNull"
  by (intro ext)
    (simp add: ArrayDataVisitor_func_def dual_method_callback_def split: option.splits)

text \<open>
  C7: \<open>ArrayDataVisitor<T>::Visit\<close> is the status form \<open>VisitStatus\<close> of the adapter of
  \<open>T\<close> with the callback that sends the empty optional to \<open>VisitNull\<close> and a value to
  \<open>VisitValue\<close>: from every state of the visitor the two return the same status and
  leave the same state, or both do not return. This holds for every adapter, and so for
  each of the four of the header.
\<close>

theorem ArrayDataVisitor_Visit_refines_VisitStatus:
  "ArrayDataVisitor_Visit InlineVisitorType_VisitStatus arr VisitValue VisitNull visitor =
     InlineVisitorType_VisitStatus arr (dual_method_callback VisitValue VisitNull) visitor \<and>
   ArrayDataVisitor_Visit (CType_VisitStatus read) arr VisitValue_c VisitNull visitor =
     CType_VisitStatus read arr (dual_method_callback VisitValue_c VisitNull) visitor \<and>
   ArrayDataVisitor_Visit Boolean_VisitStatus arr VisitValue_bool VisitNull visitor =
     Boolean_VisitStatus arr (dual_method_callback VisitValue_bool VisitNull) visitor \<and>
   ArrayDataVisitor_Visit (BaseBinary_VisitStatus read_offset) arr VisitValue_view VisitNull
       visitor =
     BaseBinary_VisitStatus read_offset arr (dual_method_callback VisitValue_view VisitNull)
       visitor \<and>
   ArrayDataVisitor_Visit FixedSizeBinary_VisitStatus arr VisitValue_view VisitNull visitor =
     FixedSizeBinary_VisitStatus arr (dual_method_callback VisitValue_view VisitNull) visitor"
  by (simp add: ArrayDataVisitor_Visit_def ArrayDataVisitor_func_dual)

subsection \<open>An unrecognized type tag\<close>

text \<open>
  C6: when the tag of a type, of an array or of a scalar is the label of none of the
  classes of \<open>ARROW_GENERATE_FOR_ALL_TYPES\<close>, each of the three dispatchers returns a
  status with the code \<open>NotImplemented\<close> and leaves the visitor as it was; the result
  is the same for every \<open>Visit\<close>, also for one that never returns, so no method of the
  visitor is called.
\<close>

theorem unrecognized_tag_not_implemented:
  assumes "tag \<notin> type_id_of ` set ARROW_GENERATE_FOR_ALL_TYPES"
    and "type_id ty = tag" and "type_id (type array) = tag"
    and "type_id (scalar_type scalar) = tag"
  shows "VisitTypeInline type_id_of ty Visit_type visitor =
           Some (Error NotImplemented ''Type not implemented'', visitor) \<and>
         VisitArrayInline type_id_of array Visit_array visitor =
           Some (Error NotImplemented ''Type not implemented'', visitor) \<and>
         VisitScalarInline type_id_of scalar Visit_scalar visitor =
           Some (Error NotImplemented
                   (''Scalar visitor for type not implemented '' @ ToString (scalar_type scalar)),
                 visitor)"
proof -
  have "find (\<lambda>c. type_id_of c = tag) ARROW_GENERATE_FOR_ALL_TYPES = None"
    using assms(1) by (auto simp: find_None_iff)
  then show ?thesis
    by (simp add: VisitTypeInline_def VisitArrayInline_def VisitScalarInline_def assms(2-4)
        Status_NotImplemented_def)
qed

theorem unrecognized_tag_not_implemented_witness:
  "36 \<notin> example_label ` set ARROW_GENERATE_FOR_ALL_TYPES \<and>
   VisitTypeInline example_label \<lparr>type_id = 36, ToString = ''future'', byte_width = 0\<rparr>
       (\<lambda>c ty v. None) (0 :: nat) =
     Some (Error NotImplemented ''Type not implemented'', 0) \<and>
   VisitArrayInline example_label
       \<lparr>type = \<lparr>type_id = 36, ToString = ''future'', byte_width = 0\<rparr>,
        buffers = [], offset = 0, length' = 0\<rparr>
       (\<lambda>c a v. None) (0 :: nat) =
     Some (Error NotImplemented ''Type not implemented'', 0) \<and>
   VisitScalarInline example_label
       \<lparr>scalar_type = \<lparr>type_id = 36, ToString = ''future'', byte_width = 0\<rparr>\<rparr>
       (\<lambda>c sc v. None) (0 :: nat) =
     Some (Error NotImplemented ''Scalar visitor for type not implemented future'', 0)"
proof -
  have unrecognized: "36 \<notin> example_label ` set ARROW_GENERATE_FOR_ALL_TYPES"
    by code_simp
  show ?thesis
    using unrecognized_tag_not_implemented [OF unrecognized,
        of "\<lparr>type_id = 36, ToString = ''future'', byte_width = 0\<rparr>"
           "\<lparr>type = \<lparr>type_id = 36, ToString = ''future'', byte_width = 0\<rparr>,
             buffers = [], offset = 0, length' = 0\<rparr>"
           "\<lparr>scalar_type = \<lparr>type_id = 36, ToString = ''future'', byte_width = 0\<rparr>\<rparr>"
           "\<lambda>c ty v. None" "0 :: nat" "\<lambda>c a v. None" "\<lambda>c sc v. None"]
      unrecognized
    by simp
qed

subsection \<open>The examples, evaluated\<close>

text \<open>
  The definitions run: a bitmap whose bits 60 to 67 are set, across the boundary of the
  first 64-bit word, and the arrays of the examples.
\<close>

lemma word_boundary_evaluated:
  "VisitNullBitmapInlineVoid
     (Some (\<lambda>i. if i = 7 then 0xF0 else if i = 8 then 0x0F else 0)) 0 70 0
     collect_bit [] =
   Some (replicate 60 False @ replicate 8 True @ replicate 2 False)"
  by code_simp

lemma fails_fast_evaluated:
  "VisitBitBlocks (Some (\<lambda>i. 0x0D)) 0 5
     (traced_not_null (\<lambda>i n. Some (if i = 2 then Error Invalid ''stop'' else OK, n + 1)))
     (traced_null (\<lambda>n. Some (OK, n))) ([], 0 :: nat) =
   Some (Error Invalid ''stop'', [NotNullAt 0, NullVisited, NotNullAt 2], 2)"
  by code_simp

lemma example_string_array_evaluated:
  "BaseBinary_VisitStatus example_read example_string_array collect [] =
     Some (OK, [Some \<lparr>sv_data = Pointer (BufferData 2) 3, sv_size = 0\<rparr>,
                Some \<lparr>sv_data = Pointer (BufferData 2) 3, sv_size = 4\<rparr>])"
  by code_simp

lemma example_fixed_size_array_evaluated:
  "FixedSizeBinary_VisitVoid example_fixed_size_array collect_void [] =
     Some [Some \<lparr>sv_data = Pointer (BufferData 1) 8, sv_size = 4\<rparr>,
           None,
           Some \<lparr>sv_data = Pointer (BufferData 1) 16, sv_size = 4\<rparr>]"
  by code_simp

end
